theory Spec2Isabelle
  imports Main "HOL-Library.Sublist"
begin

section \<open>Requests, responses and user code\<close>

text \<open>
  The embedding follows the first (most recent) variant of \<^verbatim>\<open>src/server.ts\<close>:
  \<^verbatim>\<open>createServer\<close>, \<^verbatim>\<open>compileAllWithMiddlewares\<close>, \<^verbatim>\<open>mergeHandler\<close>, \<^verbatim>\<open>withMethod\<close>,
  \<^verbatim>\<open>addStatic\<close> and its helpers, and \<^verbatim>\<open>handlers.ts\<close> for the two default handlers.

  A request is what the code reads of Node's \<^verbatim>\<open>IncomingMessage\<close>: \<^verbatim>\<open>req.method\<close> (the field
  \<open>req_method\<close>) and
  \<^verbatim>\<open>req.url\<close>. The latter is the request-target of the request line, so it carries the
  query string (\<^verbatim>\<open>/status?name=ryan\<close>). Headers are kept because a predicate path may
  read them.
\<close>

type_synonym failure = string
type_synonym bytes = "nat list"

record request =
  req_method :: string
  url :: string
  headers :: "(string \<times> string) list"

text \<open>What user code does to the response (\<^verbatim>\<open>res.writeHead\<close>, \<^verbatim>\<open>res.write\<close>,
  \<^verbatim>\<open>res.end\<close>) or to anything else that can be observed.\<close>

datatype effect = WriteHead nat | Write bytes | End | Other string

text \<open>Handlers and middlewares are typed \<^verbatim>\<open>=> Promise<any>\<close>: the promise they return
  is resolved or rejected, and a \<^verbatim>\<open>throw\<close> inside an async body is a rejection. A
  function that is not async can also throw before it has returned a promise
  (\<open>Threw\<close>); the exception then leaves the call.\<close>

datatype outcome = Resolved | Rejected failure | Threw failure

text \<open>
  The body of a middleware \<^verbatim>\<open>(request, response, next) => Promise<any>\<close>, for a given
  request: effects and calls of \<^verbatim>\<open>next()\<close> in program order, up to the settlement of its
  promise (or up to the \<^verbatim>\<open>throw\<close> of a body that is not async). A body is run up to its
  settlement when it is called: the points where it suspends are not represented, the
  order of its own steps is.

  A call of \<^verbatim>\<open>next()\<close> returns nothing, and it throws when the stage that it starts throws
  instead of returning a promise. \<open>Next k c\<close> is such a call: the body goes on with
  \<open>k\<close> when the call has returned, and \<open>c\<close> says what it does when the call throws:
  an async body without a \<^verbatim>\<open>try\<close> around the call is rejected with what was thrown
  (\<open>Rejects\<close>), a body that is not async lets the exception through to its own caller
  (\<open>Propagates\<close>), and a body that catches it goes on with its \<^verbatim>\<open>catch\<close> block
  (\<open>Catches\<close>).
\<close>

datatype script = Settle outcome | Do effect script | Next script on_throw
  and on_throw = Rejects | Propagates | Catches script

text \<open>A request handler, a not-found handler or an error handler has no \<^verbatim>\<open>next\<close>:
  its effects, then the settlement (or the \<^verbatim>\<open>throw\<close>).\<close>

type_synonym behaviour = "effect list \<times> outcome"

datatype Middleware = Middleware (mw_name: string) (mw_body: "request \<Rightarrow> script")

text \<open>
  A \<^verbatim>\<open>RequestHandler\<close> value is either a function of the user (named, so that its calls
  show in the trace) or the closure that \<^verbatim>\<open>mergeHandler\<close> returns, which captures the
  wrapped handler and the middleware array. The third captured value,
  \<^verbatim>\<open>getErrorHandler\<close>, is the same getter of the one server everywhere; the error handler
  it returns is read from the server when a failure is delivered (\<open>invoke_errorHandler\<close>).
\<close>

datatype RequestHandler =
    Fn string "request \<Rightarrow> behaviour"
  | Merged RequestHandler "Middleware list"

text \<open>\<^verbatim>\<open>mergeHandler(handler, middlewares, getErrorHandler)\<close>. The closure keeps the array
  it is given; the array of the global middlewares only grows, and every call that
  changes it compiles the table anew, so the list at the time of compiling is the list
  at the time of the dispatch.\<close>

definition mergeHandler :: "RequestHandler \<Rightarrow> Middleware list \<Rightarrow> RequestHandler" where
  "mergeHandler h mws = Merged h mws"

section \<open>Running a handler chain\<close>

datatype event =
    MatcherEvaluated nat
  | Invoked string
  | Did effect
  | NotFoundInvoked
  | ErrorHandlerInvoked failure
  | UnhandledRejection failure

text \<open>The trace of one dispatch, and the failures whose \<^verbatim>\<open>.catch(handleError)\<close>
  reaction is queued and has not run yet: a reaction is a job of its own, which runs
  when the code that is running has returned.\<close>

record run_state =
  trace :: "event list"
  pending :: "failure list"

text \<open>\<^verbatim>\<open>xs[i]\<close>: \<^verbatim>\<open>undefined\<close> out of range.\<close>

definition js_index :: "'a list \<Rightarrow> int \<Rightarrow> 'a option" where
  "js_index xs i = (if 0 \<le> i \<and> nat i < length xs then Some (xs ! nat i) else None)"

definition emit :: "event list \<Rightarrow> run_state \<Rightarrow> run_state" where
  "emit es s = s\<lparr>trace := trace s @ es\<rparr>"

text \<open>\<^verbatim>\<open>f(req, res).catch(handleError)\<close>, given how the call of \<^verbatim>\<open>f\<close> ended: a
  rejection of the promise queues one call of the error handler; when \<^verbatim>\<open>f\<close> threw there
  is no promise, and the exception goes on to the caller (the first component).\<close>

definition catch_handleError :: "outcome \<Rightarrow> run_state \<Rightarrow> failure option \<times> run_state" where
  "catch_handleError out s =
     (case out of
        Resolved \<Rightarrow> (None, s)
      | Rejected e \<Rightarrow> (None, s\<lparr>pending := pending s @ [e]\<rparr>)
      | Threw e \<Rightarrow> (Some e, s))"

text \<open>
  \<^item> \<open>call h req s\<close> is \<^verbatim>\<open>h(req, res)\<close>. For a merged handler it is the body
    \<^verbatim>\<open>let i = -1; ...; next();\<close> of the async function of \<^verbatim>\<open>mergeHandler\<close>, whose promise
    resolves when that first \<^verbatim>\<open>next()\<close> has returned, and is rejected when it has
    thrown.
  \<^item> \<open>next_call h mws req (i, s)\<close> is one call of the closure \<^verbatim>\<open>next\<close>, with the cursor
    \<^verbatim>\<open>i\<close> shared by all its calls:
    \<^verbatim>\<open>const mw = middlewares[++i]; if (mw) mw(req, res, next).catch(handleError);
      else handler(req, res).catch(handleError);\<close>
    Its first component is what the call throws, if it throws.
  \<^item> \<open>run h mws req k (i, s)\<close> runs the body \<open>k\<close> of a middleware that was given this
    \<^verbatim>\<open>next\<close>.
\<close>

function call :: "RequestHandler \<Rightarrow> request \<Rightarrow> run_state \<Rightarrow> outcome \<times> run_state"
  and next_call :: "RequestHandler \<Rightarrow> Middleware list \<Rightarrow> request \<Rightarrow> int \<times> run_state
                      \<Rightarrow> failure option \<times> int \<times> run_state"
  and run :: "RequestHandler \<Rightarrow> Middleware list \<Rightarrow> request \<Rightarrow> script \<Rightarrow> int \<times> run_state
                \<Rightarrow> outcome \<times> int \<times> run_state"
where
  "call (Fn name f) req s =
     (case f req of (effs, out) \<Rightarrow> (out, emit (Invoked name # map Did effs) s))"
| "call (Merged h mws) req s =
     (case next_call h mws req (- 1, s) of
        (None, i, s') \<Rightarrow> (Resolved, s')
      | (Some e, i, s') \<Rightarrow> (Rejected e, s'))"
| "next_call h mws req (i, s) =
     (case js_index mws (i + 1) of
        Some (Middleware name body) \<Rightarrow>
          (case run h mws req (body req) (i + 1, emit [Invoked name] s) of
             (out, i', s') \<Rightarrow>
               (case catch_handleError out s' of (thrown, s'') \<Rightarrow> (thrown, i', s'')))
      | None \<Rightarrow>
          (case call h req s of
             (out, s') \<Rightarrow>
               (case catch_handleError out s' of (thrown, s'') \<Rightarrow> (thrown, i + 1, s''))))"
| "run h mws req (Settle out) (i, s) = (out, i, s)"
| "run h mws req (Do a k) (i, s) = run h mws req k (i, emit [Did a] s)"
| "run h mws req (Next k c) (i, s) =
     (case next_call h mws req (i, s) of
        (None, i', s') \<Rightarrow> run h mws req k (i', s')
      | (Some e, i', s') \<Rightarrow>
          (case c of
             Rejects \<Rightarrow> (Rejected e, i', s')
           | Propagates \<Rightarrow> (Threw e, i', s')
           | Catches k' \<Rightarrow> run h mws req k' (i', s')))"
  by pat_completeness auto

text \<open>Every call of \<^verbatim>\<open>next\<close> moves the cursor on, a body is finite and merged handlers
  nest finitely: running a chain always comes to an end.\<close>

termination
proof (relation "measures
    [\<lambda>x. case x of Inl (h, _) \<Rightarrow> 2 * size h + 1
                | Inr (Inl (h, _)) \<Rightarrow> 2 * size h + 2
                | Inr (Inr (h, _)) \<Rightarrow> 2 * size h + 2,
     \<lambda>x. case x of Inl _ \<Rightarrow> 0
                | Inr (Inl (_, mws, _, i, _)) \<Rightarrow> nat (int (length mws) - i)
                | Inr (Inr (_, mws, _, _, i, _)) \<Rightarrow> nat (int (length mws) - i),
     \<lambda>x. case x of Inl _ \<Rightarrow> 0
                | Inr (Inl _) \<Rightarrow> 0
                | Inr (Inr (_, _, _, k, _)) \<Rightarrow> Suc (size k)]", goal_cases)
  have "call_next_call_run_dom (Inl (h0, req0, s0)) \<Longrightarrow> True"
    and cursor_grows: "call_next_call_run_dom (Inr (Inl (h1, mws1, req1, c1)))
           \<Longrightarrow> fst c1 \<le> fst (snd (next_call h1 mws1 req1 c1))"
    and "call_next_call_run_dom (Inr (Inr (h2, mws2, req2, k2, c2)))
           \<Longrightarrow> fst c2 \<le> fst (snd (run h2 mws2 req2 k2 c2))"
    for h0 req0 s0 h1 mws1 req1 c1 h2 mws2 req2 k2 c2
  proof (induction rule: call_next_call_run.pinduct)
    case (3 h mws req i s)
    then show ?case
      by (auto simp: next_call.psimps split: option.splits Middleware.splits prod.splits)
  next
    case (6 h mws req k c i s)
    obtain t i' s' where n: "next_call h mws req (i, s) = (t, i', s')"
      by (cases "next_call h mws req (i, s)") auto
    from 6(2) n have le: "i \<le> i'" by simp
    show ?case
    proof (cases t)
      case None
      from 6(3)[OF n[symmetric] None refl] le n None 6(1) show ?thesis
        by (simp add: run.psimps)
    next
      case (Some e)
      show ?thesis
      proof (cases c)
        case (Catches k')
        from 6(4)[OF n[symmetric] Some refl Catches] le n Some Catches 6(1) show ?thesis
          by (simp add: run.psimps)
      qed (use le n Some 6(1) in \<open>simp_all add: run.psimps\<close>)
    qed
  qed (auto simp: run.psimps)
  {
    case (7 h mws req k c i s x y i' s')
    then have "fst (snd (next_call h mws req (i, s))) = i'"
      by (metis fst_conv snd_conv)
    with 7 cursor_grows[of h mws req "(i, s)"] have "i \<le> i'"
      by simp
    then show ?case
      by auto
  next
    case (8 h mws req k c i s x y e i' s' k')
    then have "fst (snd (next_call h mws req (i, s))) = i'"
      by (metis fst_conv snd_conv)
    with 8 cursor_grows[of h mws req "(i, s)"] have "i \<le> i'"
      by simp
    with 8 show ?case
      by auto
  }
qed (auto simp: js_index_def split: if_splits)

declare next_call.simps [simp del]


section \<open>Path matchers and the route tables\<close>

text \<open>\<^verbatim>\<open>RequestPathValidator = (request) => boolean\<close>; the function of a user may throw.\<close>

type_synonym RequestPathValidator = "request \<Rightarrow> failure + bool"

text \<open>A \<^verbatim>\<open>RegExp\<close> is what \<^verbatim>\<open>path.test\<close> answers on a string (a pattern without the
  \<^verbatim>\<open>g\<close> and \<^verbatim>\<open>y\<close> flags, which would make \<^verbatim>\<open>test\<close> depend on earlier calls).\<close>

type_synonym RegExp = "string \<Rightarrow> bool"

definition isPathValidByRegex :: "RegExp \<Rightarrow> RequestPathValidator" where
  "isPathValidByRegex path = (\<lambda>req. Inr (path (url req)))"

definition isPathValidByString :: "string \<Rightarrow> RequestPathValidator" where
  "isPathValidByString path = (\<lambda>req. Inr (url req = path))"

definition createStaticPathValidator :: "string \<Rightarrow> RequestPathValidator" where
  "createStaticPathValidator basePath = (\<lambda>req. Inr (prefix basePath (url req)))"

record RequestHandlerContext =
  handler :: RequestHandler
  isPathValid :: RequestPathValidator

type_synonym RequestHandlersGrouped = "string \<rightharpoonup> RequestHandlerContext list"

definition compileAllWithMiddlewares ::
  "RequestHandlersGrouped \<Rightarrow> Middleware list \<Rightarrow> RequestHandlersGrouped" where
  "compileAllWithMiddlewares grouped mws =
     (if mws = [] then grouped
      else (\<lambda>m. map_option
                  (map (\<lambda>ctx. \<lparr>handler = mergeHandler (handler ctx) mws,
                               isPathValid = isPathValid ctx\<rparr>))
                  (grouped m)))"

section \<open>The server and its dispatcher\<close>

text \<open>An error handler also sees \<^verbatim>\<open>res.headersSent\<close>, which the default one reads.\<close>

type_synonym RequestErrorHandler = "failure \<Rightarrow> request \<Rightarrow> bool \<Rightarrow> behaviour"
type_synonym NotFoundHandler = "request \<Rightarrow> behaviour"

definition defaultErrorHandler :: RequestErrorHandler where
  "defaultErrorHandler err req sent =
     (Other (''[flitz] '' @ err) # (if \<not> sent then [WriteHead 500] else []) @ [End], Resolved)"

definition defaultNotFoundHandler :: NotFoundHandler where
  "defaultNotFoundHandler req = ([WriteHead 404, End], Resolved)"

text \<open>The variables that \<^verbatim>\<open>createServer\<close> closes over (the listening socket apart).\<close>

record server =
  errorHandler :: RequestErrorHandler
  globalMiddleWares :: "Middleware list"
  notFoundHandler :: NotFoundHandler
  groupedHandlers :: RequestHandlersGrouped
  compiledHandlers :: RequestHandlersGrouped

definition createServer :: server where
  "createServer =
     \<lparr>errorHandler = defaultErrorHandler, globalMiddleWares = [],
      notFoundHandler = defaultNotFoundHandler,
      groupedHandlers = Map.empty, compiledHandlers = Map.empty\<rparr>"

definition recompileHandlers :: "server \<Rightarrow> server" where
  "recompileHandlers s =
     s\<lparr>compiledHandlers := compileAllWithMiddlewares (groupedHandlers s) (globalMiddleWares s)\<rparr>"

text \<open>\<^verbatim>\<open>bucket.find(ctx => ctx.isPathValid(req))\<close>: the matchers are called in order, up to
  the first that returns true or throws. The first component counts the calls.\<close>

fun find_ctx :: "RequestHandlerContext list \<Rightarrow> request
                  \<Rightarrow> nat \<times> (failure + RequestHandlerContext option)" where
  "find_ctx [] req = (0, Inr None)"
| "find_ctx (c # cs) req =
     (case isPathValid c req of
        Inl e \<Rightarrow> (1, Inl e)
      | Inr True \<Rightarrow> (1, Inr (Some c))
      | Inr False \<Rightarrow> (case find_ctx cs req of (n, r) \<Rightarrow> (Suc n, r)))"

fun sends_headers :: "event \<Rightarrow> bool" where
  "sends_headers (Did (WriteHead _)) = True"
| "sends_headers (Did (Write _)) = True"
| "sends_headers (Did End) = True"
| "sends_headers _ = False"

definition headersSent :: "event list \<Rightarrow> bool" where
  "headersSent tr = list_ex sends_headers tr"

text \<open>\<^verbatim>\<open>errorHandler(e, req, res)\<close>, with the handler that the server holds now. Nothing
  catches a failure of the error handler itself, a rejection or a \<^verbatim>\<open>throw\<close>: it rejects
  the promise of the code that called it, which nobody handles.\<close>

definition invoke_errorHandler :: "server \<Rightarrow> request \<Rightarrow> failure \<Rightarrow> event list \<Rightarrow> event list" where
  "invoke_errorHandler srv req e tr =
     (case errorHandler srv e req (headersSent tr) of
        (effs, out) \<Rightarrow>
          tr @ ErrorHandlerInvoked e # map Did effs
             @ (case out of
                  Resolved \<Rightarrow> []
                | Rejected e' \<Rightarrow> [UnhandledRejection e']
                | Threw e' \<Rightarrow> [UnhandledRejection e']))"

text \<open>The queued \<^verbatim>\<open>.catch(handleError)\<close> reactions run in the order they were queued.\<close>

definition run_pending :: "server \<Rightarrow> request \<Rightarrow> failure list \<Rightarrow> event list \<Rightarrow> event list" where
  "run_pending srv req es tr = fold (invoke_errorHandler srv req) es tr"

text \<open>\<^verbatim>\<open>await handler(req, res)\<close> inside the \<^verbatim>\<open>try\<close>, after the trace \<open>tr\<close>: the
  handler is called, the reactions queued meanwhile run, and a rejection of the
  handler's own promise goes to the \<^verbatim>\<open>catch\<close> block, as does what the handler throws.\<close>

definition invoke_handler :: "server \<Rightarrow> request \<Rightarrow> event list \<Rightarrow> RequestHandler \<Rightarrow> event list" where
  "invoke_handler srv req tr h =
     (case call h req \<lparr>trace = tr, pending = []\<rparr> of
        (out, s) \<Rightarrow>
          (case out of
             Resolved \<Rightarrow> run_pending srv req (pending s) (trace s)
           | Rejected e \<Rightarrow>
               invoke_errorHandler srv req e (run_pending srv req (pending s) (trace s))
           | Threw e \<Rightarrow>
               invoke_errorHandler srv req e (run_pending srv req (pending s) (trace s))))"

text \<open>\<^verbatim>\<open>await notFoundHandler(req, res)\<close> inside the \<^verbatim>\<open>try\<close>.\<close>

definition invoke_notFoundHandler :: "server \<Rightarrow> request \<Rightarrow> event list \<Rightarrow> event list" where
  "invoke_notFoundHandler srv req tr =
     (case notFoundHandler srv req of
        (effs, out) \<Rightarrow>
          (case out of
             Resolved \<Rightarrow> tr @ NotFoundInvoked # map Did effs
           | Rejected e \<Rightarrow> invoke_errorHandler srv req e (tr @ NotFoundInvoked # map Did effs)
           | Threw e \<Rightarrow> invoke_errorHandler srv req e (tr @ NotFoundInvoked # map Did effs)))"

text \<open>
  The request listener \<^verbatim>\<open>flitz\<close>:
  \<^verbatim>\<open>try { const handler = compiledHandlers[req.method]?.find(...)?.handler;
         if (handler) await handler(req, res); else await notFoundHandler(req, res); }
   catch (e) { await errorHandler(e, req, res); }\<close>
  Its value is the trace of the dispatch. The table is a map from method names; the
  methods that Node's parser lets through name no property that a plain object inherits,
  so a method without routes reads as \<^verbatim>\<open>undefined\<close>.
\<close>

definition flitz :: "server \<Rightarrow> request \<Rightarrow> event list" where
  "flitz srv req =
     (case (case compiledHandlers srv (req_method req) of
              None \<Rightarrow> (0, Inr None)
            | Some bucket \<Rightarrow> find_ctx bucket req) of
        (n, Inl e) \<Rightarrow> invoke_errorHandler srv req e (map MatcherEvaluated [0..<n])
      | (n, Inr (Some ctx)) \<Rightarrow> invoke_handler srv req (map MatcherEvaluated [0..<n]) (handler ctx)
      | (n, Inr None) \<Rightarrow> invoke_notFoundHandler srv req (map MatcherEvaluated [0..<n]))"

section \<open>Registration\<close>

text \<open>
  The arguments of the registration calls are checked at run time, so they are values of
  any JavaScript type; \<open>'f\<close> is what a function is in the position at hand. An object is
  an options record, given by its \<^verbatim>\<open>use\<close> property as
  \<^verbatim>\<open>RequestHandlerOptions\<close> declares it (\<^verbatim>\<open>use?: CanBeNil<Middleware[]>\<close>): absent or nil,
  or an array.
\<close>

datatype 'f jsval =
    JUndefined | JNull | JBoolean bool | JNumber int | JString string | JRegExp RegExp
  | JFunction 'f | JArray "'f jsval list" | JObject "'f jsval list option"

fun is_function :: "'f jsval \<Rightarrow> bool" where
  "is_function (JFunction _) = True"
| "is_function _ = False"

fun truthy :: "'f jsval \<Rightarrow> bool" where
  "truthy JUndefined = False"
| "truthy JNull = False"
| "truthy (JBoolean b) = b"
| "truthy (JNumber n) = (n \<noteq> 0)"
| "truthy (JString s) = (s \<noteq> [])"
| "truthy _ = True"

text \<open>\<^verbatim>\<open>typeof v === 'object'\<close>\<close>

fun typeof_object :: "'f jsval \<Rightarrow> bool" where
  "typeof_object JNull = True"
| "typeof_object (JRegExp _) = True"
| "typeof_object (JArray _) = True"
| "typeof_object (JObject _) = True"
| "typeof_object _ = False"

text \<open>\<^verbatim>\<open>typeof path === 'string' || path instanceof RegExp || typeof path === 'function'\<close>\<close>

fun path_accepted :: "'f jsval \<Rightarrow> bool" where
  "path_accepted (JString _) = True"
| "path_accepted (JRegExp _) = True"
| "path_accepted (JFunction _) = True"
| "path_accepted _ = False"

text \<open>The functions of an array all of whose elements are functions.\<close>

fun functions_of :: "'f jsval list \<Rightarrow> 'f list" where
  "functions_of [] = []"
| "functions_of (JFunction f # vs) = f # functions_of vs"
| "functions_of (_ # vs) = functions_of vs"

datatype error = TypeError string
datatype completion = Returned | Thrown error

text \<open>\<^verbatim>\<open>opts.args\<close>: with fewer than three arguments \<^verbatim>\<open>args[1]\<close> is the handler, else
  \<^verbatim>\<open>args[1]\<close> is \<^verbatim>\<open>optionsOrMiddlewares\<close> and \<^verbatim>\<open>args[2]\<close> the handler. A missing argument
  is \<^verbatim>\<open>undefined\<close>.\<close>

datatype arguments =
    Args2 "RequestPathValidator jsval" "RequestHandler jsval"
  | Args3 "RequestPathValidator jsval" "Middleware jsval" "RequestHandler jsval"

fun args_path :: "arguments \<Rightarrow> RequestPathValidator jsval" where
  "args_path (Args2 p _) = p"
| "args_path (Args3 p _ _) = p"

fun args_optionsOrMiddlewares :: "arguments \<Rightarrow> Middleware jsval" where
  "args_optionsOrMiddlewares (Args2 _ _) = JUndefined"
| "args_optionsOrMiddlewares (Args3 _ oom _) = oom"

fun args_handler :: "arguments \<Rightarrow> RequestHandler jsval" where
  "args_handler (Args2 _ h) = h"
| "args_handler (Args3 _ _ h) = h"

text \<open>The \<^verbatim>\<open>options\<close> that \<^verbatim>\<open>withMethod\<close> makes of \<^verbatim>\<open>optionsOrMiddlewares\<close>.\<close>

definition normalize_options :: "Middleware jsval \<Rightarrow> Middleware jsval" where
  "normalize_options oom =
     (if truthy oom then
        (case oom of
           JArray xs \<Rightarrow> JObject (Some xs)
         | JFunction mw \<Rightarrow> JObject (Some [JFunction mw])
         | _ \<Rightarrow> oom)
      else JObject None)"

text \<open>\<^verbatim>\<open>options.use\<close>, as the list that \<^verbatim>\<open>options.use?.length\<close> measures.\<close>

fun options_use :: "Middleware jsval \<Rightarrow> Middleware jsval list" where
  "options_use (JObject (Some xs)) = xs"
| "options_use _ = []"

text \<open>The path validator that \<^verbatim>\<open>withMethod\<close> selects; \<^verbatim>\<open>req.url === path\<close> is false for
  a path that is no string.\<close>

fun path_validator :: "RequestPathValidator jsval \<Rightarrow> RequestPathValidator" where
  "path_validator (JFunction f) = f"
| "path_validator (JRegExp r) = isPathValidByRegex r"
| "path_validator (JString p) = isPathValidByString p"
| "path_validator _ = (\<lambda>req. Inr False)"

definition push_ctx :: "string \<Rightarrow> RequestHandlerContext \<Rightarrow> RequestHandlersGrouped
                          \<Rightarrow> RequestHandlersGrouped" where
  "push_ctx m c g = g(m \<mapsto> (case g m of None \<Rightarrow> [] | Some b \<Rightarrow> b) @ [c])"

text \<open>\<^verbatim>\<open>withMethod\<close> for the method \<open>m\<close>: the state it leaves and whether it returned (the
  server itself) or threw.\<close>

definition withMethod :: "string \<Rightarrow> arguments \<Rightarrow> server \<Rightarrow> completion \<times> server" where
  "withMethod m args s =
     (if \<not> path_accepted (args_path args) then
        (Thrown (TypeError ''path must be of type string, function or RegEx''), s)
      else
        (case args_handler args of
           JFunction h \<Rightarrow>
             (let options = normalize_options (args_optionsOrMiddlewares args) in
              if \<not> typeof_object options then
                (Thrown (TypeError ''optionsOrMiddlewares must be an object or array''), s)
              else if options_use options \<noteq> [] \<and> \<not> list_all is_function (options_use options) then
                (Thrown (TypeError ''optionsOrMiddlewares must be an array of functions''), s)
              else
                (let s1 = (if groupedHandlers s m = None
                           then s\<lparr>groupedHandlers := (groupedHandlers s)(m \<mapsto> [])\<rparr> else s);
                     h' = (if options_use options \<noteq> []
                           then mergeHandler h (functions_of (options_use options)) else h);
                     s2 = s1\<lparr>groupedHandlers :=
                               push_ctx m \<lparr>handler = h', isPathValid = path_validator (args_path args)\<rparr>
                                 (groupedHandlers s1)\<rparr>
                 in (Returned, recompileHandlers s2)))
         | _ \<Rightarrow> (Thrown (TypeError ''handler must be a function''), s)))"

text \<open>\<^verbatim>\<open>flitz.use(...middlewares)\<close>\<close>

definition use :: "Middleware jsval list \<Rightarrow> server \<Rightarrow> completion \<times> server" where
  "use middlewares s =
     (if \<not> list_all is_function middlewares then
        (Thrown (TypeError ''middlewares must be a list of functions''), s)
      else
        (Returned,
         recompileHandlers (s\<lparr>globalMiddleWares := globalMiddleWares s @ functions_of middlewares\<rparr>)))"

definition setErrorHandler :: "RequestErrorHandler jsval \<Rightarrow> server \<Rightarrow> completion \<times> server" where
  "setErrorHandler h s =
     (case h of
        JFunction f \<Rightarrow> (Returned, s\<lparr>errorHandler := f\<rparr>)
      | _ \<Rightarrow> (Thrown (TypeError ''handler must be a function''), s))"

definition setNotFoundHandler :: "NotFoundHandler jsval \<Rightarrow> server \<Rightarrow> completion \<times> server" where
  "setNotFoundHandler h s =
     (case h of
        JFunction f \<Rightarrow> (Returned, s\<lparr>notFoundHandler := f\<rparr>)
      | _ \<Rightarrow> (Thrown (TypeError ''handler must be a function''), s))"


section \<open>Static files, cached\<close>

text \<open>
  The directory \<^verbatim>\<open>rootDir\<close> as \<^verbatim>\<open>fs.readdirSync\<close> and \<^verbatim>\<open>fs.statSync\<close> show it: the
  entries of a directory in the order they are listed, each a regular file with its
  bytes, a directory, or something that is neither. Links are followed, and the tree is
  finite.
\<close>

datatype fsnode = File bytes | Directory "(string \<times> fsnode) list" | Special

type_synonym FileWithData = "string \<rightharpoonup> bytes"

text \<open>\<^verbatim>\<open>relativePath(rootDir, fullPath).split(pathSep).join('/')\<close> for the entry that is
  reached from \<^verbatim>\<open>rootDir\<close> through the given names.\<close>

fun relativePath :: "string list \<Rightarrow> string" where
  "relativePath [] = []"
| "relativePath [x] = x"
| "relativePath (x # y # zs) = x @ CHR ''/'' # relativePath (y # zs)"

definition endsWith_slash :: "string \<Rightarrow> bool" where
  "endsWith_slash basePath = (basePath \<noteq> [] \<and> last basePath = CHR ''/'')"

definition file_key :: "string \<Rightarrow> string list \<Rightarrow> string" where
  "file_key basePath names =
     basePath @ (if endsWith_slash basePath then [] else ''/'') @ relativePath names"

text \<open>\<^verbatim>\<open>loadAllFiles(dir, files, rootDir, basePath)\<close>, with \<open>dir\<close> given by its entries and
  by the names that lead to it from \<^verbatim>\<open>rootDir\<close>.\<close>

function loadAllFiles :: "(string \<times> fsnode) list \<Rightarrow> string list \<Rightarrow> string \<Rightarrow> FileWithData
                            \<Rightarrow> FileWithData" where
  "loadAllFiles [] dir basePath files = files"
| "loadAllFiles ((item, node) # items) dir basePath files =
     loadAllFiles items dir basePath
       (case node of
          Directory sub \<Rightarrow> loadAllFiles sub (dir @ [item]) basePath files
        | File data \<Rightarrow> files(file_key basePath (dir @ [item]) \<mapsto> data)
        | Special \<Rightarrow> files)"
  by pat_completeness auto

termination
  by (relation "measure (\<lambda>(entries, _). size_list (size_prod (\<lambda>_. 0) size) entries)") auto

text \<open>\<^verbatim>\<open>const data = files[req.url]; if (data) ...\<close>: a \<^verbatim>\<open>Buffer\<close> is truthy, also an
  empty one.\<close>

definition createStaticHandlerCached :: "(string \<times> fsnode) list \<Rightarrow> string \<Rightarrow> RequestHandler" where
  "createStaticHandlerCached rootDir basePath =
     (let files = loadAllFiles rootDir [] basePath Map.empty in
      Fn ''static'' (\<lambda>req.
        (case files (url req) of
           Some data \<Rightarrow> ([WriteHead 200, Write data, End], Resolved)
         | None \<Rightarrow> ([WriteHead 404, End], Resolved))))"

text \<open>\<^verbatim>\<open>flitz.static(basePath, rootDir)\<close> with the default \<^verbatim>\<open>cache = true\<close>, for a
  \<^verbatim>\<open>basePath\<close> that is a string and a \<^verbatim>\<open>rootDir\<close> that names a readable directory.\<close>

definition addStatic :: "string \<Rightarrow> (string \<times> fsnode) list \<Rightarrow> server \<Rightarrow> completion \<times> server" where
  "addStatic basePath rootDir s =
     withMethod ''GET''
       (Args2 (JFunction (createStaticPathValidator basePath))
              (JFunction (createStaticHandlerCached rootDir basePath))) s"

section \<open>Sequences of registration calls\<close>

datatype op =
    Route string arguments
  | Use "Middleware jsval list"
  | Static string "(string \<times> fsnode) list"
  | SetErrorHandler "RequestErrorHandler jsval"
  | SetNotFoundHandler "NotFoundHandler jsval"

fun apply_op :: "op \<Rightarrow> server \<Rightarrow> completion \<times> server" where
  "apply_op (Route m args) s = withMethod m args s"
| "apply_op (Use middlewares) s = use middlewares s"
| "apply_op (Static basePath rootDir) s = addStatic basePath rootDir s"
| "apply_op (SetErrorHandler h) s = setErrorHandler h s"
| "apply_op (SetNotFoundHandler h) s = setNotFoundHandler h s"

text \<open>The calls are made one after the other on the same server; a call that throws
  leaves the state it had reached.\<close>

definition apply_ops :: "op list \<Rightarrow> server \<Rightarrow> server" where
  "apply_ops ops s = fold (\<lambda>op s. snd (apply_op op s)) ops s"


section \<open>Notions used in the statements\<close>

subsection \<open>Buckets and matching\<close>

text \<open>\<^verbatim>\<open>table[method]\<close>, read as the empty list where the method has no bucket.\<close>

definition bucket :: "RequestHandlersGrouped \<Rightarrow> string \<Rightarrow> RequestHandlerContext list" where
  "bucket table m = (case table m of None \<Rightarrow> [] | Some b \<Rightarrow> b)"

definition matches :: "request \<Rightarrow> RequestHandlerContext \<Rightarrow> bool" where
  "matches req c = (isPathValid c req = Inr True)"

text \<open>The routes in front of the first one that matches.\<close>

definition scanned :: "request \<Rightarrow> RequestHandlerContext list \<Rightarrow> RequestHandlerContext list" where
  "scanned req b = takeWhile (\<lambda>c. \<not> matches req c) b"

text \<open>What a trace says about who was called.\<close>

fun invocations :: "event list \<Rightarrow> string list" where
  "invocations [] = []"
| "invocations (Invoked name # es) = name # invocations es"
| "invocations (_ # es) = invocations es"

text \<open>The names of the functions of the user inside a handler.\<close>

fun names_of :: "RequestHandler \<Rightarrow> string set" where
  "names_of (Fn name f) = {name}"
| "names_of (Merged h mws) = names_of h \<union> mw_name ` set mws"

fun error_calls :: "event list \<Rightarrow> failure list" where
  "error_calls [] = []"
| "error_calls (ErrorHandlerInvoked e # es) = e # error_calls es"
| "error_calls (_ # es) = error_calls es"

fun matcher_calls :: "event list \<Rightarrow> nat list" where
  "matcher_calls [] = []"
| "matcher_calls (MatcherEvaluated n # es) = n # matcher_calls es"
| "matcher_calls (_ # es) = matcher_calls es"

subsection \<open>Bodies\<close>

text \<open>The largest number of calls of \<^verbatim>\<open>next()\<close> that a body can make, whether a call
  returns or throws.\<close>

fun count_next :: "script \<Rightarrow> nat"
  and count_caught :: "on_throw \<Rightarrow> nat" where
  "count_next (Settle _) = 0"
| "count_next (Do _ k) = count_next k"
| "count_next (Next k c) = Suc (max (count_next k) (count_caught c))"
| "count_caught Rejects = 0"
| "count_caught Propagates = 0"
| "count_caught (Catches k) = count_next k"

text \<open>How a body ends and what it does when its calls of \<^verbatim>\<open>next()\<close> return.\<close>

fun settlement :: "script \<Rightarrow> outcome" where
  "settlement (Settle out) = out"
| "settlement (Do _ k) = settlement k"
| "settlement (Next k _) = settlement k"

fun effects :: "script \<Rightarrow> effect list" where
  "effects (Settle _) = []"
| "effects (Do a k) = a # effects k"
| "effects (Next k _) = effects k"

fun before_next :: "script \<Rightarrow> effect list" where
  "before_next (Settle _) = []"
| "before_next (Do a k) = a # before_next k"
| "before_next (Next k _) = []"

fun after_next :: "script \<Rightarrow> effect list" where
  "after_next (Settle _) = []"
| "after_next (Do a k) = after_next k"
| "after_next (Next k _) = effects k"

text \<open>What a body does when its first call of \<^verbatim>\<open>next()\<close> throws.\<close>

fun reaction :: "script \<Rightarrow> on_throw" where
  "reaction (Settle _) = Propagates"
| "reaction (Do _ k) = reaction k"
| "reaction (Next _ c) = c"

text \<open>A stage that calls \<^verbatim>\<open>next()\<close>, once, and does not fail.\<close>

definition well_behaved :: "request \<Rightarrow> Middleware \<Rightarrow> bool" where
  "well_behaved req mw =
     (count_next (mw_body mw req) = 1 \<and> settlement (mw_body mw req) = Resolved)"



text \<open>The failures that stages can end with of their own: at the end of the body, or
  at the end of the \<^verbatim>\<open>catch\<close> block around the call of \<^verbatim>\<open>next()\<close>.\<close>

fun failures_of :: "outcome \<Rightarrow> failure list" where
  "failures_of Resolved = []"
| "failures_of (Rejected e) = [e]"
| "failures_of (Threw e) = [e]"


text \<open>What the stages do up to their call of \<^verbatim>\<open>next()\<close>, first stage first, and what
  they do after it has returned, last stage first.\<close>

definition entering :: "Middleware list \<Rightarrow> request \<Rightarrow> event list" where
  "entering mws req =
     concat (map (\<lambda>mw. Invoked (mw_name mw) # map Did (before_next (mw_body mw req))) mws)"

definition leaving :: "Middleware list \<Rightarrow> request \<Rightarrow> event list" where
  "leaving mws req = concat (map (\<lambda>mw. map Did (after_next (mw_body mw req))) (rev mws))"

subsection \<open>What a call leaves behind\<close>

text \<open>The events and the queued failures that a call adds to the state.\<close>

definition push :: "event list \<Rightarrow> failure list \<Rightarrow> run_state \<Rightarrow> run_state" where
  "push es fs s = s\<lparr>trace := trace s @ es, pending := pending s @ fs\<rparr>"

text \<open>The events of a trace that are not calls of functions of the chain nor their
  effects.\<close>

fun dispatcher_events :: "event list \<Rightarrow> event list" where
  "dispatcher_events [] = []"
| "dispatcher_events (Invoked _ # es) = dispatcher_events es"
| "dispatcher_events (Did _ # es) = dispatcher_events es"
| "dispatcher_events (e # es) = e # dispatcher_events es"

text \<open>From \<open>s\<close> to \<open>s'\<close> functions with names in \<open>N\<close> were invoked, and nothing
  else happened than their effects.\<close>

definition adds :: "string set \<Rightarrow> run_state \<Rightarrow> run_state \<Rightarrow> bool" where
  "adds N s s' =
     (\<exists>tr ps. s' = push tr ps s \<and> dispatcher_events tr = [] \<and> set (invocations tr) \<subseteq> N)"

text \<open>How a body that calls \<^verbatim>\<open>next()\<close> once goes on when the call has returned
  or thrown.\<close>

definition resume :: "script \<Rightarrow> failure option \<Rightarrow> run_state \<Rightarrow> outcome \<times> run_state" where
  "resume k thrown s =
     (case thrown of
        None \<Rightarrow> (settlement k, push (map Did (after_next k)) [] s)
      | Some e \<Rightarrow>
          (case reaction k of
             Rejects \<Rightarrow> (Rejected e, s)
           | Propagates \<Rightarrow> (Threw e, s)
           | Catches k' \<Rightarrow> (settlement k', push (map Did (effects k')) [] s)))"



subsection \<open>Wrapping\<close>

text \<open>Both \<^verbatim>\<open>withMethod\<close> (\<^verbatim>\<open>if (options.use?.length)\<close>) and
  \<^verbatim>\<open>compileAllWithMiddlewares\<close> (\<^verbatim>\<open>if (!middlewares.length)\<close>) wrap with a list of
  middlewares only if it is not empty.\<close>

definition wrap :: "Middleware list \<Rightarrow> RequestHandler \<Rightarrow> RequestHandler" where
  "wrap mws h = (if mws = [] then h else mergeHandler h mws)"

definition compile_ctx :: "Middleware list \<Rightarrow> RequestHandlerContext \<Rightarrow> RequestHandlerContext" where
  "compile_ctx gs ctx = \<lparr>handler = wrap gs (handler ctx), isPathValid = isPathValid ctx\<rparr>"

subsection \<open>What a sequence of calls registers\<close>

text \<open>The route that a registration call describes, if the call is accepted: the
  matcher for its path, and its handler inside its own middlewares.\<close>

definition route_of :: "arguments \<Rightarrow> RequestHandlerContext option" where
  "route_of args =
     (let options = normalize_options (args_optionsOrMiddlewares args) in
      case args_handler args of
        JFunction h \<Rightarrow>
          (if path_accepted (args_path args) \<and> typeof_object options
                \<and> list_all is_function (options_use options)
           then Some \<lparr>handler = wrap (functions_of (options_use options)) h,
                      isPathValid = path_validator (args_path args)\<rparr>
           else None)
      | _ \<Rightarrow> None)"

fun routes_of_op :: "op \<Rightarrow> string \<Rightarrow> RequestHandlerContext list" where
  "routes_of_op (Route m' args) m =
     (if m' = m then (case route_of args of None \<Rightarrow> [] | Some c \<Rightarrow> [c]) else [])"
| "routes_of_op (Static basePath rootDir) m =
     (if m = ''GET''
      then [\<lparr>handler = createStaticHandlerCached rootDir basePath,
             isPathValid = createStaticPathValidator basePath\<rparr>]
      else [])"
| "routes_of_op _ m = []"

definition registered :: "op list \<Rightarrow> string \<Rightarrow> RequestHandlerContext list" where
  "registered ops m = concat (map (\<lambda>op. routes_of_op op m) ops)"

fun globals_of_op :: "op \<Rightarrow> Middleware list" where
  "globals_of_op (Use middlewares) =
     (if list_all is_function middlewares then functions_of middlewares else [])"
| "globals_of_op _ = []"

definition accumulated :: "op list \<Rightarrow> Middleware list" where
  "accumulated ops = concat (map globals_of_op ops)"

subsection \<open>Invariants of the server\<close>

text \<open>The compiled table is the raw table compiled with the global middlewares.\<close>

definition compiled_from_raw :: "server \<Rightarrow> bool" where
  "compiled_from_raw s =
     (compiledHandlers s = compileAllWithMiddlewares (groupedHandlers s) (globalMiddleWares s))"

text \<open>A bucket exists as soon as, and only when, a route was pushed to it.\<close>

definition no_empty_bucket :: "RequestHandlersGrouped \<Rightarrow> bool" where
  "no_empty_bucket g = (\<forall>m. g m \<noteq> Some [])"

subsection \<open>The files of a directory\<close>

text \<open>The regular files under a directory, each with the names that lead to it from
  \<^verbatim>\<open>rootDir\<close>, in the order \<^verbatim>\<open>loadAllFiles\<close> meets them.\<close>

function files_under :: "(string \<times> fsnode) list \<Rightarrow> string list \<Rightarrow> (string list \<times> bytes) list" where
  "files_under [] dir = []"
| "files_under ((item, node) # items) dir =
     (case node of
        Directory sub \<Rightarrow> files_under sub (dir @ [item])
      | File data \<Rightarrow> [(dir @ [item], data)]
      | Special \<Rightarrow> [])
     @ files_under items dir"
  by pat_completeness auto
termination
  by (relation "measure (\<lambda>(entries, _). size_list (size_prod (\<lambda>_. 0) size) entries)") auto

text \<open>The names of the entries of a directory are distinct, not empty and without a
  slash.\<close>

definition valid_name :: "string \<Rightarrow> bool" where
  "valid_name n = (n \<noteq> [] \<and> CHR ''/'' \<notin> set n)"

function wf_entries :: "(string \<times> fsnode) list \<Rightarrow> bool" where
  "wf_entries [] = True"
| "wf_entries ((item, node) # items) =
     (valid_name item \<and> item \<notin> fst ` set items
      \<and> (case node of Directory sub \<Rightarrow> wf_entries sub | _ \<Rightarrow> True)
      \<and> wf_entries items)"
  by pat_completeness auto
termination
  by (relation "measure (size_list (size_prod (\<lambda>_. 0) size))") auto

text \<open>The keys and values that \<^verbatim>\<open>loadAllFiles\<close> is to store for a list of files.\<close>

definition cache_entries :: "string \<Rightarrow> (string list \<times> bytes) list \<Rightarrow> (string \<times> bytes) list" where
  "cache_entries basePath fs = map (\<lambda>(p, d). (file_key basePath p, d)) fs"

text \<open>What the cached handler does when \<^verbatim>\<open>files[req.url]\<close> is \<open>found\<close>.\<close>

definition static_response :: "bytes option \<Rightarrow> event list" where
  "static_response found =
     (case found of
        Some data \<Rightarrow> [Did (WriteHead 200), Did (Write data), Did End]
      | None \<Rightarrow> [Did (WriteHead 404), Did End])"

subsection \<open>The path of a request\<close>

text \<open>The path of a request in the sense of HTTP: its request-target without the query
  string, that is, up to the first question mark.\<close>

definition request_path :: "request \<Rightarrow> string" where
  "request_path req = takeWhile (\<lambda>c. c \<noteq> CHR ''?'') (url req)"


section \<open>A server to try the statements on\<close>

definition ex_request :: request where
  "ex_request = \<lparr>req_method = ''GET'', url = ''/a'', headers = []\<rparr>"

definition ex_hello :: RequestHandler where
  "ex_hello = Fn ''hello'' (\<lambda>req. ([Write [104, 105], End], Resolved))"

definition ex_other :: RequestHandler where
  "ex_other = Fn ''other'' (\<lambda>req. ([End], Resolved))"

definition ex_g1 :: Middleware where
  "ex_g1 = Middleware ''g1''
     (\<lambda>req. Do (Other ''g1 in'') (Next (Do (Other ''g1 out'') (Settle Resolved)) Rejects))"

definition ex_g2 :: Middleware where
  "ex_g2 = Middleware ''g2'' (\<lambda>req. Next (Settle Resolved) Rejects)"

definition ex_r1 :: Middleware where
  "ex_r1 = Middleware ''r1'' (\<lambda>req. Do (Other ''r1 in'') (Next (Settle Resolved) Rejects))"

definition ex_bad :: Middleware where
  "ex_bad = Middleware ''bad'' (\<lambda>req. Do (Other ''bad in'') (Settle (Rejected ''boom'')))"

text \<open>\<^verbatim>\<open>app.use(g1); app.get('/a', [r1], hello); app.use(g2); app.get(() => true, other)\<close>\<close>

definition ex_ops :: "op list" where
  "ex_ops =
     [Use [JFunction ex_g1],
      Route ''GET'' (Args3 (JString ''/a'') (JArray [JFunction ex_r1]) (JFunction ex_hello)),
      Use [JFunction ex_g2],
      Route ''GET'' (Args2 (JFunction (\<lambda>req. Inr True)) (JFunction ex_other))]"

definition ex_server :: server where
  "ex_server = apply_ops ex_ops createServer"


text \<open>\<^verbatim>\<open>app.use(g1); app.get('/a', [bad, r1], hello)\<close>\<close>

definition ex_failing :: server where
  "ex_failing = apply_ops
     [Use [JFunction ex_g1],
      Route ''GET'' (Args3 (JString ''/a'') (JArray [JFunction ex_bad, JFunction ex_r1])
                       (JFunction ex_hello))] createServer"

text \<open>\<^verbatim>\<open>app.get('/a', [r1], hello); app.get(() => true, other)\<close>, no \<^verbatim>\<open>use()\<close>\<close>

definition ex_plain :: server where
  "ex_plain = apply_ops
     [Route ''GET'' (Args3 (JString ''/a'') (JArray [JFunction ex_r1]) (JFunction ex_hello)),
      Route ''GET'' (Args2 (JFunction (\<lambda>req. Inr True)) (JFunction ex_other))] createServer"

text \<open>Requests that no route of \<open>ex_failing\<close> matches, and whose method has no bucket.\<close>

definition ex_request_zzz :: request where
  "ex_request_zzz = \<lparr>req_method = ''GET'', url = ''/zzz'', headers = []\<rparr>"

definition ex_request_post :: request where
  "ex_request_post = \<lparr>req_method = ''POST'', url = ''/a'', headers = []\<rparr>"

text \<open>\<^verbatim>\<open>async (req, res, next) => { next(); next() }\<close>\<close>

definition ex_twice :: Middleware where
  "ex_twice = Middleware ''twice'' (\<lambda>req. Next (Next (Settle Resolved) Rejects) Rejects)"

text \<open>\<^verbatim>\<open>async (req, res, next) => { next(); throw 'late' }\<close>\<close>

definition ex_late :: Middleware where
  "ex_late = Middleware ''late'' (\<lambda>req. Next (Settle (Rejected ''late'')) Rejects)"

text \<open>\<^verbatim>\<open>(req, res, next) => { console.log('thrower in'); throw 'boom' }\<close>, not async\<close>

definition ex_thrower :: Middleware where
  "ex_thrower = Middleware ''thrower'' (\<lambda>req. Do (Other ''thrower in'') (Settle (Threw ''boom'')))"

text \<open>\<^verbatim>\<open>async (req, res, next) => { try { next() } catch (e) { console.log('caught') } }\<close>\<close>

definition ex_catcher :: Middleware where
  "ex_catcher = Middleware ''catcher''
     (\<lambda>req. Next (Settle Resolved) (Catches (Do (Other ''caught'') (Settle Resolved))))"





text \<open>A directory with \<^verbatim>\<open>a.txt\<close> and \<^verbatim>\<open>sub/b.txt\<close>, served under \<^verbatim>\<open>/static\<close>.\<close>

definition ex_root :: "(string \<times> fsnode) list" where
  "ex_root = [(''a.txt'', File [1, 2, 3]), (''sub'', Directory [(''b.txt'', File [4, 5])])]"

definition ex_static :: server where
  "ex_static = apply_ops ([] @ [Static ''/static'' ex_root]) createServer"

section \<open>Lemmas\<close>

subsection \<open>Evaluation\<close>

lemmas model_defs = apply_ops_def withMethod_def use_def createServer_def recompileHandlers_def
  compileAllWithMiddlewares_def normalize_options_def push_ctx_def mergeHandler_def

lemmas run_defs = flitz_def invoke_handler_def invoke_notFoundHandler_def invoke_errorHandler_def
  run_pending_def next_call.simps js_index_def emit_def catch_handleError_def headersSent_def

lemma ex_server_GET:
  "bucket (compiledHandlers ex_server) ''GET'' =
     [\<lparr>handler = Merged (Merged ex_hello [ex_r1]) [ex_g1, ex_g2],
       isPathValid = isPathValidByString ''/a''\<rparr>,
      \<lparr>handler = Merged ex_other [ex_g1, ex_g2], isPathValid = (\<lambda>req. Inr True)\<rparr>]"
  by (simp add: ex_server_def ex_ops_def model_defs bucket_def)


subsection \<open>Running bodies and chains\<close>

lemma emit_push: "emit es s = push es [] s"
  by (simp add: emit_def push_def)

lemma push_push: "push es' fs' (push es fs s) = push (es @ es') (fs @ fs') s"
  by (simp add: push_def)

lemma push_Nil: "push [] [] s = s"
  by (simp add: push_def)

lemma trace_push: "trace (push es fs s) = trace s @ es" "pending (push es fs s) = pending s @ fs"
  by (simp_all add: push_def)

lemma catch_handleError_push:
  "catch_handleError out s =
     (case out of Threw e \<Rightarrow> Some e | _ \<Rightarrow> None,
      push [] (case out of Rejected e \<Rightarrow> [e] | _ \<Rightarrow> []) s)"
  by (simp add: catch_handleError_def push_def split: outcome.splits)

lemma run_no_next:
  "count_next k = 0 \<Longrightarrow>
   run h mws req k (i, s) = (settlement k, i, push (map Did (effects k)) [] s)"
  by (induction k arbitrary: s rule: effects.induct) (simp_all add: emit_push push_push push_Nil)

lemma before_next_no_next: "count_next k = 0 \<Longrightarrow> before_next k = effects k"
  by (induction k rule: effects.induct) simp_all

lemma resume_Do: "resume (Do a k) thrown s = resume k thrown s"
  by (cases thrown) (simp_all add: resume_def)

lemma run_one_next:
  "count_next k = 1 \<Longrightarrow>
   run h mws req k (i, s) =
     (case next_call h mws req (i, push (map Did (before_next k)) [] s) of
        (thrown, i', s') \<Rightarrow> (case resume k thrown s' of (out, s'') \<Rightarrow> (out, i', s'')))"
proof (induction k arbitrary: s rule: effects.induct)
  case (1 out)
  then show ?case by simp
next
  case (2 a k)
  then show ?case by (simp add: emit_push push_push resume_Do)
next
  case (3 k c)
  then have k: "count_next k = 0" and c: "count_caught c = 0"
    by simp_all
  obtain t i' s' where n: "next_call h mws req (i, s) = (t, i', s')"
    by (cases "next_call h mws req (i, s)") auto
  show ?case
  proof (cases t)
    case None
    with n k show ?thesis
      by (simp add: run_no_next push_Nil resume_def)
  next
    case (Some e)
    with n c show ?thesis
      by (cases c) (simp_all add: run_no_next push_Nil resume_def)
  qed
qed

lemma next_call_stage:
  assumes "js_index mws (i + 1) = Some (Middleware name body)"
    and "count_next (body req) = 1"
  shows "next_call h mws req (i, s) =
     (case next_call h mws req (i + 1, push (Invoked name # map Did (before_next (body req))) [] s) of
        (thrown, i', s') \<Rightarrow>
          (case resume (body req) thrown s' of
             (out, s'') \<Rightarrow>
               (case catch_handleError out s'' of (thrown', s''') \<Rightarrow> (thrown', i', s'''))))"
  using assms
  by (simp add: next_call.simps[of h mws req i] run_one_next emit_push push_push split: prod.splits)


lemma next_call_end:
  assumes "js_index mws (i + 1) = None"
  shows "next_call h mws req (i, s) =
     (case call h req s of
        (out, s') \<Rightarrow> (case catch_handleError out s' of (thrown, s'') \<Rightarrow> (thrown, i + 1, s'')))"
  using assms by (simp add: next_call.simps[of h mws req i])

lemma js_index_drop:
  "drop i mws = m # rest \<Longrightarrow> js_index mws (int i - 1 + 1) = Some m \<and> drop (Suc i) mws = rest"
  by (metis Cons_nth_drop_Suc add.commute add_diff_cancel_left' diff_add_cancel drop_all js_index_def linorder_not_less list.discI list.inject nat_int of_nat_0_le_iff)


lemma entering_Cons:
  "entering (mw # mws) req =
     Invoked (mw_name mw) # map Did (before_next (mw_body mw req)) @ entering mws req"
  by (simp add: entering_def)

lemma leaving_Cons:
  "leaving (mw # mws) req = leaving mws req @ map Did (after_next (mw_body mw req))"
  by (simp add: leaving_def)

lemma entering_append: "entering (xs @ ys) req = entering xs req @ entering ys req"
  by (simp add: entering_def)

lemma leaving_append: "leaving (xs @ ys) req = leaving ys req @ leaving xs req"
  by (simp add: leaving_def)

lemma next_call_well_behaved:
  assumes "list_all (well_behaved req) ms"
    and "drop i mws = ms @ rest"
    and "\<And>s1. next_call h mws req (int (i + length ms) - 1, s1) = (None, c, push X P s1)"
  shows "next_call h mws req (int i - 1, s) =
           (None, c, push (entering ms req @ X @ leaving ms req) P s)"
  using assms
proof (induction ms arbitrary: i s)
  case Nil
  then show ?case by (simp add: entering_def leaving_def)
next
  case (Cons m ms)
  obtain name body where m: "m = Middleware name body"
    by (cases m) auto
  from Cons.prems(2) have d: "drop i mws = m # (ms @ rest)" by simp
  from js_index_drop[OF d]
  have idx: "js_index mws (int i - 1 + 1) = Some (Middleware name body)"
    and d': "drop (Suc i) mws = ms @ rest"
    by (simp_all add: m)
  from Cons.prems(1) have one: "count_next (body req) = 1" and ok: "settlement (body req) = Resolved"
    by (simp_all add: well_behaved_def m)
  from Cons.prems(1) have wb: "list_all (well_behaved req) ms"
    by simp
  have inner: "\<And>s1. next_call h mws req (int (Suc i + length ms) - 1, s1) = (None, c, push X P s1)"
    using Cons.prems(3) by simp
  have ih: "\<And>s. next_call h mws req (int i - 1 + 1, s) =
      (None, c, push (entering ms req @ X @ leaving ms req) P s)"
    using Cons.IH[OF wb d' inner] by simp
  show ?case
    unfolding next_call_stage[OF idx one] ih
    by (simp add: resume_def ok catch_handleError_push push_push entering_Cons leaving_Cons m)
qed

lemma call_Merged_exact:
  assumes "next_call h mws req (- 1, s) = (None, c, s')"
  shows "call (Merged h mws) req s = (Resolved, s')"
  using assms by simp

lemma call_Fn_push:
  "call (Fn name f) req s = (snd (f req), push (Invoked name # map Did (fst (f req))) [] s)"
  by (simp add: emit_push split: prod.splits)

lemma js_index_end: "js_index mws (int (length mws) - 1 + 1) = None"
  by (simp add: js_index_def)

text \<open>The call of a handler inside its middlewares, when all of them call
  \<^verbatim>\<open>next()\<close> once and do not fail.\<close>

lemma call_wrap_well_behaved:
  assumes "list_all (well_behaved req) ms"
    and "\<And>s1. call h req s1 = (Resolved, push X P s1)"
  shows "call (wrap ms h) req s = (Resolved, push (entering ms req @ X @ leaving ms req) P s)"
proof (cases "ms = []")
  case True
  then show ?thesis
    using assms(2) by (simp add: wrap_def entering_def leaving_def)
next
  case False
  have inner: "\<And>s1. next_call h ms req (int (0 + length ms) - 1, s1) = (None, int (length ms), push X P s1)"
    using next_call_end[OF js_index_end, of h ms req] assms(2)
    by (simp add: catch_handleError_push push_push)
  have "next_call h ms req (int 0 - 1, s) =
           (None, int (length ms), push (entering ms req @ X @ leaving ms req) P s)"
    by (rule next_call_well_behaved[OF assms(1) _ inner]) simp
  then show ?thesis
    using False by (simp add: wrap_def mergeHandler_def)
qed


lemma run_pending_snoc:
  "run_pending srv req (es @ [e]) tr = invoke_errorHandler srv req e (run_pending srv req es tr)"
  by (simp add: run_pending_def)

lemma invoke_handler_call:
  "call h req \<lparr>trace = tr, pending = []\<rparr> = (out, s) \<Longrightarrow>
   invoke_handler srv req tr h = run_pending srv req (pending s @ failures_of out) (trace s)"
  by (cases out) (simp_all add: invoke_handler_def run_pending_snoc)

lemma invoke_handler_Fn:
  "invoke_handler srv req tr (Fn name f) =
     (case f req of
        (effs, out) \<Rightarrow>
          (case out of
             Resolved \<Rightarrow> tr @ Invoked name # map Did effs
           | Rejected e \<Rightarrow> invoke_errorHandler srv req e (tr @ Invoked name # map Did effs)
           | Threw e \<Rightarrow> invoke_errorHandler srv req e (tr @ Invoked name # map Did effs)))"
  by (simp add: invoke_handler_def emit_def run_pending_def split: prod.splits outcome.splits)



subsection \<open>Scanning a bucket\<close>

lemma find_ctx_find:
  "\<forall>c \<in> set (scanned req b). isPathValid c req = Inr False \<Longrightarrow>
   find_ctx b req =
     (case List.find (matches req) b of
        Some c \<Rightarrow> (Suc (length (scanned req b)), Inr (Some c))
      | None \<Rightarrow> (length b, Inr None))"
proof (induction b)
  case Nil
  then show ?case by simp
next
  case (Cons c cs)
  show ?case
  proof (cases "matches req c")
    case True
    then show ?thesis by (simp add: matches_def scanned_def)
  next
    case False
    with Cons.prems have f: "isPathValid c req = Inr False"
      by (simp add: scanned_def)
    from Cons.prems False have "\<forall>c \<in> set (scanned req cs). isPathValid c req = Inr False"
      by (simp add: scanned_def)
    from Cons.IH[OF this] False f show ?thesis
      by (auto simp: scanned_def split: option.splits)
  qed
qed


lemma flitz_bucket:
  "flitz srv req =
     (case find_ctx (bucket (compiledHandlers srv) (req_method req)) req of
        (n, Inl e) \<Rightarrow> invoke_errorHandler srv req e (map MatcherEvaluated [0..<n])
      | (n, Inr (Some ctx)) \<Rightarrow> invoke_handler srv req (map MatcherEvaluated [0..<n]) (handler ctx)
      | (n, Inr None) \<Rightarrow> invoke_notFoundHandler srv req (map MatcherEvaluated [0..<n]))"
  by (simp add: flitz_def bucket_def split: option.splits)

lemma invocations_append: "invocations (xs @ ys) = invocations xs @ invocations ys"
  by (induction xs rule: invocations.induct) simp_all

lemma error_calls_append: "error_calls (xs @ ys) = error_calls xs @ error_calls ys"
  by (induction xs rule: error_calls.induct) simp_all

lemma matcher_calls_append: "matcher_calls (xs @ ys) = matcher_calls xs @ matcher_calls ys"
  by (induction xs rule: matcher_calls.induct) simp_all

lemma invocations_Did: "invocations (map Did effs) = []"
  by (induction effs) simp_all

lemma error_calls_Did: "error_calls (map Did effs) = []"
  by (induction effs) simp_all

lemma matcher_calls_Did: "matcher_calls (map Did effs) = []"
  by (induction effs) simp_all

lemma invocations_MatcherEvaluated: "invocations (map MatcherEvaluated ns) = []"
  by (induction ns) simp_all

lemma error_calls_MatcherEvaluated: "error_calls (map MatcherEvaluated ns) = []"
  by (induction ns) simp_all

lemma matcher_calls_MatcherEvaluated: "matcher_calls (map MatcherEvaluated ns) = ns"
  by (induction ns) simp_all

lemma invocations_entering: "invocations (entering mws req) = map mw_name mws"
  by (induction mws) (simp_all add: entering_def invocations_append invocations_Did)

lemma error_calls_entering: "error_calls (entering mws req) = []"
  by (induction mws) (simp_all add: entering_def error_calls_append error_calls_Did)

lemma invocations_leaving: "invocations (leaving mws req) = []"
  by (induction mws) (simp_all add: leaving_def invocations_append invocations_Did)

lemma error_calls_leaving: "error_calls (leaving mws req) = []"
  by (induction mws) (simp_all add: leaving_def error_calls_append error_calls_Did)

lemma invoke_errorHandler_trace:
  "invoke_errorHandler srv req e tr =
     tr @ ErrorHandlerInvoked e # map Did (fst (errorHandler srv e req (headersSent tr)))
        @ (case snd (errorHandler srv e req (headersSent tr)) of
             Resolved \<Rightarrow> []
           | Rejected e' \<Rightarrow> [UnhandledRejection e']
           | Threw e' \<Rightarrow> [UnhandledRejection e'])"
  by (simp add: invoke_errorHandler_def split: prod.splits)

lemma invocations_invoke_errorHandler:
  "invocations (invoke_errorHandler srv req e tr) = invocations tr"
  by (simp add: invoke_errorHandler_trace invocations_append invocations_Did split: outcome.splits)


lemma matcher_calls_invoke_errorHandler:
  "matcher_calls (invoke_errorHandler srv req e tr) = matcher_calls tr"
  by (simp add: invoke_errorHandler_trace matcher_calls_append matcher_calls_Did split: outcome.splits)


subsection \<open>A failure on its way to the error handler\<close>

lemma dispatcher_events_append:
  "dispatcher_events (xs @ ys) = dispatcher_events xs @ dispatcher_events ys"
  by (induction xs rule: dispatcher_events.induct) simp_all

lemma dispatcher_events_Did: "dispatcher_events (map Did effs) = []"
  by (induction effs) simp_all










subsection \<open>The compiled table\<close>

lemma compile_ctx_Nil: "compile_ctx [] c = c"
  by (simp add: compile_ctx_def wrap_def)

lemma compileAllWithMiddlewares_bucket:
  "bucket (compileAllWithMiddlewares g gs) m = map (compile_ctx gs) (bucket g m)"
proof (cases "gs = []")
  case True
  then have "map (compile_ctx gs) (bucket g m) = bucket g m"
    by (simp add: compile_ctx_Nil[abs_def])
  with True show ?thesis by (simp add: compileAllWithMiddlewares_def)
next
  case False
  then show ?thesis
    by (simp add: compileAllWithMiddlewares_def bucket_def compile_ctx_def[abs_def] wrap_def
          split: option.splits)
qed

lemma compiled_from_raw_recompile: "compiled_from_raw (recompileHandlers s)"
  by (simp add: compiled_from_raw_def recompileHandlers_def)

lemma recompileHandlers_fields:
  "groupedHandlers (recompileHandlers s) = groupedHandlers s"
  "globalMiddleWares (recompileHandlers s) = globalMiddleWares s"
  "errorHandler (recompileHandlers s) = errorHandler s"
  "notFoundHandler (recompileHandlers s) = notFoundHandler s"
  by (simp_all add: recompileHandlers_def)

lemma push_ctx_init: "g m = None \<Longrightarrow> push_ctx m c (g(m \<mapsto> [])) = push_ctx m c g"
  by (simp add: push_ctx_def)

lemma withMethod_accepted:
  assumes "route_of args = Some c"
  shows "withMethod m args s =
     (Returned, recompileHandlers (s\<lparr>groupedHandlers := push_ctx m c (groupedHandlers s)\<rparr>))"
proof -
  obtain h where h: "args_handler args = JFunction h"
    using assms by (auto simp: route_of_def Let_def split: jsval.splits)
  let ?o = "normalize_options (args_optionsOrMiddlewares args)"
  from assms h have ok: "path_accepted (args_path args)" "typeof_object ?o"
      "list_all is_function (options_use ?o)"
    and c: "c = \<lparr>handler = wrap (functions_of (options_use ?o)) h,
                 isPathValid = path_validator (args_path args)\<rparr>"
    by (auto simp: route_of_def Let_def split: if_splits)
  have e: "functions_of (options_use ?o) = [] \<longleftrightarrow> options_use ?o = []"
    using ok(3) by (cases "options_use ?o" rule: functions_of.cases) auto
  show ?thesis
    using h ok e
    by (auto simp: withMethod_def Let_def c wrap_def push_ctx_init)
qed

lemma withMethod_rejected:
  assumes "route_of args = None"
  shows "\<exists>msg. withMethod m args s = (Thrown (TypeError msg), s)"
  using assms
  by (auto simp: route_of_def withMethod_def Let_def split: jsval.splits if_splits)

lemma route_of_static:
  "route_of (Args2 (JFunction v) (JFunction h)) = Some \<lparr>handler = h, isPathValid = v\<rparr>"
  by (simp add: route_of_def normalize_options_def wrap_def)

lemma bucket_push_ctx:
  "bucket (push_ctx m' c g) m = bucket g m @ (if m' = m then [c] else [])"
  by (simp add: bucket_def push_ctx_def)

lemma apply_op_bucket:
  "bucket (groupedHandlers (snd (apply_op op s))) m = bucket (groupedHandlers s) m @ routes_of_op op m"
proof (cases op)
  case (Route m' args)
  show ?thesis
  proof (cases "route_of args")
    case None
    from withMethod_rejected[OF this, of m' s] Route None show ?thesis by auto
  next
    case (Some c)
    from withMethod_accepted[OF this, of m' s] Route Some show ?thesis
      by (simp add: recompileHandlers_def bucket_push_ctx)
  qed
next
  case (Use mws)
  then show ?thesis by (simp add: use_def recompileHandlers_def)
next
  case (Static basePath rootDir)
  then show ?thesis
    by (simp add: addStatic_def withMethod_accepted[OF route_of_static] recompileHandlers_def
          bucket_push_ctx)
next
  case (SetErrorHandler h)
  then show ?thesis by (simp add: setErrorHandler_def split: jsval.splits)
next
  case (SetNotFoundHandler h)
  then show ?thesis by (simp add: setNotFoundHandler_def split: jsval.splits)
qed

lemma apply_op_globals:
  "globalMiddleWares (snd (apply_op op s)) = globalMiddleWares s @ globals_of_op op"
proof (cases op)
  case (Route m' args)
  show ?thesis
  proof (cases "route_of args")
    case None
    from withMethod_rejected[OF this, of m' s] Route show ?thesis by auto
  next
    case (Some c)
    from withMethod_accepted[OF this, of m' s] Route show ?thesis
      by (simp add: recompileHandlers_def)
  qed
next
  case (Use mws)
  then show ?thesis by (simp add: use_def recompileHandlers_def)
next
  case (Static basePath rootDir)
  then show ?thesis
    by (simp add: addStatic_def withMethod_accepted[OF route_of_static] recompileHandlers_def)
next
  case (SetErrorHandler h)
  then show ?thesis by (simp add: setErrorHandler_def split: jsval.splits)
next
  case (SetNotFoundHandler h)
  then show ?thesis by (simp add: setNotFoundHandler_def split: jsval.splits)
qed

lemma no_empty_bucket_push: "no_empty_bucket g \<Longrightarrow> no_empty_bucket (push_ctx m c g)"
  by (simp add: no_empty_bucket_def push_ctx_def)

lemma apply_op_invariants:
  assumes "compiled_from_raw s" "no_empty_bucket (groupedHandlers s)"
  shows "compiled_from_raw (snd (apply_op op s))"
    and "no_empty_bucket (groupedHandlers (snd (apply_op op s)))"
proof -
  have "compiled_from_raw (snd (apply_op op s)) \<and> no_empty_bucket (groupedHandlers (snd (apply_op op s)))"
  proof (cases op)
    case (Route m' args)
    show ?thesis
    proof (cases "route_of args")
      case None
      from withMethod_rejected[OF this, of m' s] Route assms show ?thesis by auto
    next
      case (Some c)
      from withMethod_accepted[OF this, of m' s] Route assms show ?thesis
        by (simp add: compiled_from_raw_recompile no_empty_bucket_push recompileHandlers_fields)
    qed
  next
    case (Use mws)
    with assms show ?thesis
      by (simp add: use_def compiled_from_raw_recompile recompileHandlers_fields)
  next
    case (Static basePath rootDir)
    with assms show ?thesis
      by (simp add: addStatic_def withMethod_accepted[OF route_of_static]
            compiled_from_raw_recompile no_empty_bucket_push recompileHandlers_fields)
  next
    case (SetErrorHandler h)
    with assms show ?thesis
      by (simp add: setErrorHandler_def compiled_from_raw_def split: jsval.splits)
  next
    case (SetNotFoundHandler h)
    with assms show ?thesis
      by (simp add: setNotFoundHandler_def compiled_from_raw_def split: jsval.splits)
  qed
  then show "compiled_from_raw (snd (apply_op op s))"
    and "no_empty_bucket (groupedHandlers (snd (apply_op op s)))" by simp_all
qed

lemma apply_ops_Cons: "apply_ops (op # ops) s = apply_ops ops (snd (apply_op op s))"
  by (simp add: apply_ops_def)

lemma apply_ops_Nil: "apply_ops [] s = s"
  by (simp add: apply_ops_def)

lemma apply_ops_state:
  assumes "compiled_from_raw s" "no_empty_bucket (groupedHandlers s)"
  shows "compiled_from_raw (apply_ops ops s)
       \<and> no_empty_bucket (groupedHandlers (apply_ops ops s))
       \<and> globalMiddleWares (apply_ops ops s) = globalMiddleWares s @ accumulated ops
       \<and> (\<forall>m. bucket (groupedHandlers (apply_ops ops s)) m
                = bucket (groupedHandlers s) m @ registered ops m)"
  using assms
proof (induction ops arbitrary: s)
  case Nil
  then show ?case by (simp add: apply_ops_Nil accumulated_def registered_def)
next
  case (Cons op ops)
  from Cons.IH[OF apply_op_invariants[OF Cons.prems]]
  show ?case
    by (simp add: apply_ops_Cons apply_op_globals apply_op_bucket accumulated_def registered_def)
qed

lemma createServer_state:
  "compiled_from_raw createServer" "no_empty_bucket (groupedHandlers createServer)"
  "globalMiddleWares createServer = []" "bucket (groupedHandlers createServer) m = []"
  by (simp_all add: createServer_def compiled_from_raw_def compileAllWithMiddlewares_def
        no_empty_bucket_def bucket_def)

lemma reachable_state:
  "compiled_from_raw (apply_ops ops createServer)"
  "no_empty_bucket (groupedHandlers (apply_ops ops createServer))"
  "globalMiddleWares (apply_ops ops createServer) = accumulated ops"
  "bucket (groupedHandlers (apply_ops ops createServer)) m = registered ops m"
  using apply_ops_state[OF createServer_state(1,2), of ops]
  by (simp_all add: createServer_state)

lemma reachable_compiled_bucket:
  "bucket (compiledHandlers (apply_ops ops createServer)) m =
     map (compile_ctx (accumulated ops)) (registered ops m)"
  using reachable_state(1)[of ops]
  by (simp add: compiled_from_raw_def compileAllWithMiddlewares_bucket reachable_state)

lemma table_of_bucket:
  "no_empty_bucket g \<Longrightarrow> g m = (if bucket g m = [] then None else Some (bucket g m))"
  by (auto simp: no_empty_bucket_def bucket_def split: option.splits)

lemma no_empty_bucket_compile:
  "no_empty_bucket g \<Longrightarrow> no_empty_bucket (compileAllWithMiddlewares g gs)"
  by (auto simp: no_empty_bucket_def compileAllWithMiddlewares_def)

subsection \<open>Dispatch on a server built by registration calls\<close>

lemma matches_compile_ctx: "matches req (compile_ctx gs c) = matches req c"
  by (simp add: matches_def compile_ctx_def)

lemma scanned_compile:
  "scanned req (map (compile_ctx gs) b) = map (compile_ctx gs) (scanned req b)"
  by (simp add: scanned_def takeWhile_map matches_compile_ctx comp_def)

lemma find_compile:
  "List.find (matches req) (map (compile_ctx gs) b) =
     map_option (compile_ctx gs) (List.find (matches req) b)"
  by (induction b) (simp_all add: matches_compile_ctx)

lemma isPathValid_compile_ctx: "isPathValid (compile_ctx gs c) = isPathValid c"
  by (simp add: compile_ctx_def)

lemma handler_compile_ctx: "handler (compile_ctx gs c) = wrap gs (handler c)"
  by (simp add: compile_ctx_def)

text \<open>Dispatch on a server that registration calls have built, read off the raw table.\<close>

lemma flitz_reachable:
  assumes "srv = apply_ops ops createServer"
    and "\<forall>c \<in> set (scanned req (bucket (groupedHandlers srv) (req_method req))).
           isPathValid c req = Inr False"
    and "List.find (matches req) (bucket (groupedHandlers srv) (req_method req)) = Some c"
  shows "flitz srv req =
     invoke_handler srv req
       (map MatcherEvaluated
          [0..<Suc (length (scanned req (bucket (groupedHandlers srv) (req_method req))))])
       (wrap (globalMiddleWares srv) (handler c))"
proof -
  let ?raw = "bucket (groupedHandlers srv) (req_method req)"
  let ?gs = "globalMiddleWares srv"
  have b: "bucket (compiledHandlers srv) (req_method req) = map (compile_ctx ?gs) ?raw"
    using reachable_state(1)[of ops] assms(1)
    by (simp add: compiled_from_raw_def compileAllWithMiddlewares_bucket)
  have "\<forall>c \<in> set (scanned req (map (compile_ctx ?gs) ?raw)). isPathValid c req = Inr False"
    using assms(2) by (simp add: scanned_compile isPathValid_compile_ctx)
  from find_ctx_find[OF this] assms(3) show ?thesis
    by (simp add: flitz_bucket b find_compile scanned_compile handler_compile_ctx)
qed

lemma run_pending_Nil: "run_pending srv req [] tr = tr"
  by (simp add: run_pending_def)


lemma trace_emit: "trace (emit es s) = trace s @ es" "pending (emit es s) = pending s"
  by (simp_all add: emit_def)

subsection \<open>The example servers\<close>

lemma ex_server_raw:
  "bucket (groupedHandlers ex_server) ''GET'' =
     [\<lparr>handler = Merged ex_hello [ex_r1], isPathValid = isPathValidByString ''/a''\<rparr>,
      \<lparr>handler = ex_other, isPathValid = (\<lambda>req. Inr True)\<rparr>]"
  "globalMiddleWares ex_server = [ex_g1, ex_g2]"
  by (simp_all add: ex_server_def ex_ops_def model_defs bucket_def)


lemma ex_request_fields: "req_method ex_request = ''GET''" "url ex_request = ''/a''"
  by (simp_all add: ex_request_def)

lemma ex_request_zzz_fields: "req_method ex_request_zzz = ''GET''" "url ex_request_zzz = ''/zzz''"
  by (simp_all add: ex_request_zzz_def)

lemma ex_request_post_fields: "req_method ex_request_post = ''POST''" "url ex_request_post = ''/a''"
  by (simp_all add: ex_request_post_def)

lemma ex_server_POST: "bucket (compiledHandlers ex_server) ''POST'' = []"
  by (simp add: ex_server_def ex_ops_def model_defs bucket_def)

lemma ex_failing_GET:
  "bucket (compiledHandlers ex_failing) ''GET'' =
     [\<lparr>handler = Merged (Merged ex_hello [ex_bad, ex_r1]) [ex_g1],
       isPathValid = isPathValidByString ''/a''\<rparr>]"
  by (simp add: ex_failing_def model_defs bucket_def)

lemma ex_plain_raw:
  "bucket (groupedHandlers ex_plain) ''GET'' =
     [\<lparr>handler = Merged ex_hello [ex_r1], isPathValid = isPathValidByString ''/a''\<rparr>,
      \<lparr>handler = ex_other, isPathValid = (\<lambda>req. Inr True)\<rparr>]"
  "globalMiddleWares ex_plain = []"
  by (simp_all add: ex_plain_def model_defs bucket_def)





lemmas ex_mw_defs = ex_g1_def ex_g2_def ex_r1_def ex_bad_def ex_twice_def ex_late_def
  ex_thrower_def ex_catcher_def

subsection \<open>The cache of static files\<close>

lemma loadAllFiles_files_under:
  "loadAllFiles entries dir basePath files =
     files ++ map_of (rev (cache_entries basePath (files_under entries dir)))"
proof (induction entries dir basePath files rule: loadAllFiles.induct)
  case (1 dir basePath files)
  then show ?case by (simp add: cache_entries_def)
next
  case (2 item node items dir basePath files)
  let ?here = "case node of
      Directory sub \<Rightarrow> loadAllFiles sub (dir @ [item]) basePath files
    | File data \<Rightarrow> files(file_key basePath (dir @ [item]) \<mapsto> data)
    | Special \<Rightarrow> files"
  let ?found = "case node of
      Directory sub \<Rightarrow> files_under sub (dir @ [item])
    | File data \<Rightarrow> [(dir @ [item], data)]
    | Special \<Rightarrow> []"
  have here: "?here = files ++ map_of (rev (cache_entries basePath ?found))"
  proof (cases node)
    case (File data)
    then show ?thesis by (simp add: cache_entries_def)
  next
    case (Directory sub)
    with "2.IH"(1) show ?thesis by simp
  next
    case Special
    then show ?thesis by (simp add: cache_entries_def)
  qed
  have "loadAllFiles ((item, node) # items) dir basePath files
      = ?here ++ map_of (rev (cache_entries basePath (files_under items dir)))"
    using "2.IH"(2) by simp
  also have "\<dots> = files ++ map_of (rev (cache_entries basePath (?found @ files_under items dir)))"
    unfolding here by (simp add: cache_entries_def)
  finally show ?case by simp
qed

lemma files_under_prefix:
  "(p, d) \<in> set (files_under entries dir) \<Longrightarrow>
   \<exists>item rest. p = dir @ item # rest \<and> item \<in> fst ` set entries"
proof (induction entries dir arbitrary: p d rule: files_under.induct)
  case (1 dir)
  then show ?case by simp
next
  case (2 item node items dir)
  from "2.prems" consider
    (here) "(p, d) \<in> set (case node of Directory sub \<Rightarrow> files_under sub (dir @ [item])
                              | File data \<Rightarrow> [(dir @ [item], data)] | Special \<Rightarrow> [])"
    | (later) "(p, d) \<in> set (files_under items dir)"
    by auto
  then show ?case
  proof cases
    case here
    show ?thesis
    proof (cases node)
      case (File data)
      with here show ?thesis by auto
    next
      case (Directory sub)
      with here "2.IH"(1)[OF Directory, of p d] show ?thesis by auto
    next
      case Special
      with here show ?thesis by simp
    qed
  next
    case later
    with "2.IH"(2)[of p d] show ?thesis by auto
  qed
qed

lemma files_under_valid:
  "wf_entries entries \<Longrightarrow> list_all valid_name dir \<Longrightarrow>
   (p, d) \<in> set (files_under entries dir) \<Longrightarrow> list_all valid_name p \<and> p \<noteq> []"
proof (induction entries dir arbitrary: p d rule: files_under.induct)
  case (1 dir)
  then show ?case by simp
next
  case (2 item node items dir)
  from "2.prems"(3) consider
    (here) "(p, d) \<in> set (case node of Directory sub \<Rightarrow> files_under sub (dir @ [item])
                              | File data \<Rightarrow> [(dir @ [item], data)] | Special \<Rightarrow> [])"
    | (later) "(p, d) \<in> set (files_under items dir)"
    by auto
  then show ?case
  proof cases
    case here
    show ?thesis
    proof (cases node)
      case (File data)
      with here "2.prems" show ?thesis by auto
    next
      case (Directory sub)
      with here "2.IH"(1)[OF Directory, of p d] "2.prems" show ?thesis by auto
    next
      case Special
      with here show ?thesis by simp
    qed
  next
    case later
    with "2.IH"(2)[of p d] "2.prems" show ?thesis by auto
  qed
qed

lemma files_under_distinct:
  "wf_entries entries \<Longrightarrow> distinct (map fst (files_under entries dir))"
proof (induction entries dir rule: files_under.induct)
  case (1 dir)
  then show ?case by simp
next
  case (2 item node items dir)
  have later: "distinct (map fst (files_under items dir))"
    using 2 by simp
  have here: "distinct (map fst (case node of Directory sub \<Rightarrow> files_under sub (dir @ [item])
                              | File data \<Rightarrow> [(dir @ [item], data)] | Special \<Rightarrow> []))"
    using 2 by (cases node) simp_all
  have disj: "p \<noteq> q"
    if "(p, d) \<in> set (case node of Directory sub \<Rightarrow> files_under sub (dir @ [item])
                              | File data \<Rightarrow> [(dir @ [item], data)] | Special \<Rightarrow> [])"
      and "(q, d') \<in> set (files_under items dir)" for p d q d'
  proof -
    from files_under_prefix[OF that(2)] obtain item' rest'
      where q: "q = dir @ item' # rest'" and i': "item' \<in> fst ` set items" by blast
    have "\<exists>rest. p = dir @ item # rest"
    proof (cases node)
      case (File data)
      with that(1) show ?thesis by auto
    next
      case (Directory sub)
      with that(1) files_under_prefix[of p d sub "dir @ [item]"] show ?thesis by auto
    next
      case Special
      with that(1) show ?thesis by simp
    qed
    then obtain rest where p: "p = dir @ item # rest" by blast
    from "2.prems" i' have "item \<noteq> item'" by auto
    with p q show ?thesis by simp
  qed
  from here later disj show ?case
    by (fastforce simp: distinct_append)
qed


lemma takeWhile_up_to: "c \<notin> set x \<Longrightarrow> takeWhile (\<lambda>a. a \<noteq> c) (x @ c # r) = x"
  by (induction x) auto

lemma find_append_none: "\<forall>x \<in> set xs. \<not> P x \<Longrightarrow> List.find P (xs @ ys) = List.find P ys"
  by (induction xs) auto

lemma slash_free_split:
  assumes "CHR ''/'' \<notin> set x" "CHR ''/'' \<notin> set x'" "x @ CHR ''/'' # r = x' @ CHR ''/'' # r'"
  shows "x = x' \<and> r = r'"
proof -
  have "takeWhile (\<lambda>c. c \<noteq> CHR ''/'') (x @ CHR ''/'' # r) = x"
    using assms(1) by (rule takeWhile_up_to)
  moreover have "takeWhile (\<lambda>c. c \<noteq> CHR ''/'') (x' @ CHR ''/'' # r') = x'"
    using assms(2) by (rule takeWhile_up_to)
  ultimately have "x = x'" using assms(3) by simp
  with assms(3) show ?thesis by simp
qed

lemma relativePath_inj:
  "list_all valid_name p \<Longrightarrow> list_all valid_name q \<Longrightarrow> p \<noteq> [] \<Longrightarrow> q \<noteq> [] \<Longrightarrow>
   relativePath p = relativePath q \<Longrightarrow> p = q"
proof (induction p arbitrary: q rule: relativePath.induct)
  case 1
  then show ?case by simp
next
  case (2 x)
  then show ?case
    by (cases q rule: relativePath.cases) (auto simp: valid_name_def)
next
  case (3 x y zs)
  show ?case
  proof (cases q rule: relativePath.cases)
    case 1
    with 3 show ?thesis by simp
  next
    case (2 x')
    with "3.prems" show ?thesis by (auto simp: valid_name_def)
  next
    case (3 x' y' zs')
    with "3.prems" have "x = x' \<and> relativePath (y # zs) = relativePath (y' # zs')"
      using slash_free_split[of x x' "relativePath (y # zs)" "relativePath (y' # zs')"]
      by (simp add: valid_name_def)
    with "3.IH"[of "y' # zs'"] "3.prems" 3 show ?thesis by simp
  qed
qed

lemma file_key_inj:
  "list_all valid_name p \<Longrightarrow> list_all valid_name q \<Longrightarrow> p \<noteq> [] \<Longrightarrow> q \<noteq> [] \<Longrightarrow>
   file_key basePath p = file_key basePath q \<Longrightarrow> p = q"
  by (auto simp: file_key_def intro: relativePath_inj)

lemma file_key_inj_on:
  assumes "wf_entries rootDir"
  shows "inj_on (file_key basePath) (fst ` set (files_under rootDir []))"
proof (rule inj_onI)
  fix p q
  assume "p \<in> fst ` set (files_under rootDir [])" "q \<in> fst ` set (files_under rootDir [])"
    and k: "file_key basePath p = file_key basePath q"
  then obtain d d' where "(p, d) \<in> set (files_under rootDir [])" "(q, d') \<in> set (files_under rootDir [])"
    by auto
  from files_under_valid[OF assms _ this(1)] files_under_valid[OF assms _ this(2)]
  show "p = q" using k by (auto intro: file_key_inj)
qed

lemma cache_lookup:
  assumes "wf_entries rootDir"
  shows "loadAllFiles rootDir [] basePath Map.empty k = Some d \<longleftrightarrow>
     (\<exists>p. (p, d) \<in> set (files_under rootDir []) \<and> k = file_key basePath p)"
proof -
  let ?fs = "files_under rootDir []"
  have m: "map fst (cache_entries basePath ?fs) = map (file_key basePath) (map fst ?fs)"
    by (simp add: cache_entries_def case_prod_unfold)
  have "distinct (map (file_key basePath) (map fst ?fs))"
    unfolding distinct_map[of "file_key basePath" "map fst ?fs"]
    using files_under_distinct[OF assms, of "[]"] file_key_inj_on[OF assms, of basePath]
    by simp
  then have "distinct (map fst (rev (cache_entries basePath ?fs)))"
    by (simp only: m[symmetric] rev_map[symmetric] distinct_rev)
  then have "map_of (rev (cache_entries basePath ?fs)) k = Some d
      \<longleftrightarrow> (k, d) \<in> set (rev (cache_entries basePath ?fs))"
    by (rule map_of_eq_Some_iff)
  then show ?thesis
    by (auto simp: loadAllFiles_files_under cache_entries_def)
qed

lemma registered_append: "registered (ops @ ops') m = registered ops m @ registered ops' m"
  by (simp add: registered_def)

lemma accumulated_append: "accumulated (ops @ ops') = accumulated ops @ accumulated ops'"
  by (simp add: accumulated_def)

lemma flitz_static:
  assumes "srv = apply_ops (ops @ [Static basePath rootDir]) createServer"
    and "accumulated ops = []"
    and "req_method req = ''GET''"
    and "\<forall>c \<in> set (registered ops ''GET''). isPathValid c req = Inr False"
    and "prefix basePath (url req)"
  shows "flitz srv req =
     map MatcherEvaluated [0..<Suc (length (registered ops ''GET''))]
     @ Invoked ''static''
       # static_response (loadAllFiles rootDir [] basePath Map.empty (url req))"
proof -
  let ?c = "\<lparr>handler = createStaticHandlerCached rootDir basePath,
             isPathValid = createStaticPathValidator basePath\<rparr>"
  have raw: "bucket (groupedHandlers srv) (req_method req) = registered ops ''GET'' @ [?c]"
    using assms(1,3) by (simp add: reachable_state registered_append registered_def)
  have gs: "globalMiddleWares srv = []"
    using assms(1,2) by (simp add: reachable_state accumulated_append accumulated_def)
  have m: "matches req ?c"
    using assms(5) by (simp add: matches_def createStaticPathValidator_def)
  have nm: "\<forall>c \<in> set (registered ops ''GET''). \<not> matches req c"
    using assms(4) by (simp add: matches_def)
  have sc: "scanned req (bucket (groupedHandlers srv) (req_method req)) = registered ops ''GET''"
    using m nm by (simp add: raw scanned_def takeWhile_append2)
  have h2: "\<forall>c \<in> set (scanned req (bucket (groupedHandlers srv) (req_method req))).
      isPathValid c req = Inr False"
    using assms(4) by (simp add: sc)
  have h3: "List.find (matches req) (bucket (groupedHandlers srv) (req_method req)) = Some ?c"
    using m nm by (simp add: raw find_append_none)
  from flitz_reachable[OF assms(1) h2 h3]
  show ?thesis
    by (simp add: sc gs wrap_def invoke_handler_def createStaticHandlerCached_def Let_def
          emit_def run_pending_Nil static_response_def
          split: option.splits del: upt_Suc)
qed


subsection \<open>Who can be invoked\<close>

lemma js_index_Some: "js_index xs i = Some x \<Longrightarrow> x \<in> set xs"
  by (auto simp: js_index_def split: if_splits)

lemma adds_refl: "adds N s s"
  unfolding adds_def by (rule exI[of _ "[]"], rule exI[of _ "[]"]) (simp add: push_Nil)

lemma adds_trans: "adds N s s' \<Longrightarrow> adds N s' s'' \<Longrightarrow> adds N s s''"
  unfolding adds_def
  by (auto simp: push_push dispatcher_events_append invocations_append)
     (metis append_Nil2 dispatcher_events_append invocations_append le_sup_iff set_append)

lemma adds_mono: "adds N s s' \<Longrightarrow> N \<subseteq> N' \<Longrightarrow> adds N' s s'"
  unfolding adds_def by blast

lemma adds_push:
  "dispatcher_events es = [] \<Longrightarrow> set (invocations es) \<subseteq> N \<Longrightarrow> adds N s (push es fs s)"
  unfolding adds_def by blast

lemma adds_catch: "adds N s (snd (catch_handleError out s))"
  by (simp add: catch_handleError_push adds_push)

lemma call_adds:
  "adds (names_of h0) s0 (snd (call h0 req0 s0))"
  "adds (names_of (Merged h mws)) (snd c) (snd (snd (next_call h mws req c)))"
  "adds (names_of (Merged h' mws')) (snd c') (snd (snd (run h' mws' req' k c')))"
proof (induction h0 req0 s0 and h mws req c and h' mws' req' k c' rule: call_next_call_run.induct)
  case (1 name f req s)
  show ?case
    unfolding call_Fn_push
    by (simp add: adds_push dispatcher_events_Did invocations_Did)
next
  case (2 h mws req s)
  then show ?case
    by (auto split: prod.splits option.splits)
next
  case (3 h mws req i s)
  show ?case
  proof (cases "js_index mws (i + 1)")
    case None
    obtain out s' where c: "call h req s = (out, s')"
      by (cases "call h req s") auto
    from 3(1)[OF None] c have "adds (names_of (Merged h mws)) s s'"
      by (auto intro: adds_mono)
    from adds_trans[OF this adds_catch[of _ s' out]] show ?thesis
      by (auto simp: next_call_end[OF None] c split: prod.splits)
  next
    case (Some mw)
    obtain name body where mw: "mw = Middleware name body" by (cases mw) auto
    from js_index_Some[OF Some] have "mw \<in> set mws" .
    then have n: "name \<in> mw_name ` set mws" using mw by force
    obtain out i' s' where r: "run h mws req (body req) (i + 1, emit [Invoked name] s) = (out, i', s')"
      by (cases "run h mws req (body req) (i + 1, emit [Invoked name] s)") auto
    have "adds (names_of (Merged h mws)) s (emit [Invoked name] s)"
      using n by (simp add: emit_push adds_push)
    moreover from 3(2)[OF Some mw] r have "adds (names_of (Merged h mws)) (emit [Invoked name] s) s'"
      by simp
    ultimately have "adds (names_of (Merged h mws)) s s'"
      by (rule adds_trans)
    from adds_trans[OF this adds_catch[of _ s' out]] show ?thesis
      by (auto simp: next_call.simps[of h mws req i] Some mw r split: prod.splits)
  qed
next
  case (4 h mws req out i s)
  then show ?case by (simp add: adds_refl)
next
  case (5 h mws req a k i s)
  have "adds (names_of (Merged h mws)) s (emit [Did a] s)"
    by (simp add: emit_push adds_push)
  from adds_trans[OF this] 5 show ?case
    by simp
next
  case (6 h mws req k c i s)
  obtain t i' s' where n: "next_call h mws req (i, s) = (t, i', s')"
    by (cases "next_call h mws req (i, s)") auto
  from 6(1) n have a: "adds (names_of (Merged h mws)) s s'"
    by simp
  show ?case
  proof (cases t)
    case None
    from 6(2)[OF n[symmetric] None refl] have "adds (names_of (Merged h mws)) s' (snd (snd (run h mws req k (i', s'))))"
      by simp
    from adds_trans[OF a this] show ?thesis
      by (simp add: n None)
  next
    case (Some e)
    show ?thesis
    proof (cases c)
      case (Catches k')
      from 6(3)[OF n[symmetric] Some refl Catches]
      have "adds (names_of (Merged h mws)) s' (snd (snd (run h mws req k' (i', s'))))"
        by simp
      from adds_trans[OF a this] show ?thesis
        by (simp add: n Some Catches)
    qed (use a n Some in simp_all)
  qed
qed

lemma dispatcher_events_free:
  assumes "dispatcher_events tr = []"
  shows "error_calls tr = []" "matcher_calls tr = []" "NotFoundInvoked \<notin> set tr"
  using assms
  by (induction tr rule: dispatcher_events.induct) simp_all

lemma invocations_run_pending:
  "invocations (run_pending srv req es tr) = invocations tr"
  unfolding run_pending_def
  by (induction es arbitrary: tr) (simp_all add: invocations_invoke_errorHandler)


lemma matcher_calls_run_pending:
  "matcher_calls (run_pending srv req es tr) = matcher_calls tr"
  unfolding run_pending_def
  by (induction es arbitrary: tr) (simp_all add: matcher_calls_invoke_errorHandler)

lemma NotFoundInvoked_invoke_errorHandler:
  "NotFoundInvoked \<in> set (invoke_errorHandler srv req e tr) \<longleftrightarrow> NotFoundInvoked \<in> set tr"
  by (auto simp: invoke_errorHandler_trace split: outcome.splits)

lemma NotFoundInvoked_run_pending:
  "NotFoundInvoked \<in> set (run_pending srv req es tr) \<longleftrightarrow> NotFoundInvoked \<in> set tr"
  unfolding run_pending_def
  by (induction es arbitrary: tr) (simp_all add: NotFoundInvoked_invoke_errorHandler)

text \<open>What the call of a handler by the dispatcher adds to the trace.\<close>

lemma invoke_handler_adds:
  "\<exists>tr es. invoke_handler srv req tr0 h = run_pending srv req es (tr0 @ tr)
           \<and> dispatcher_events tr = [] \<and> set (invocations tr) \<subseteq> names_of h"
proof -
  obtain out s where c: "call h req \<lparr>trace = tr0, pending = []\<rparr> = (out, s)"
    by (cases "call h req \<lparr>trace = tr0, pending = []\<rparr>") auto
  from call_adds(1)[of h "\<lparr>trace = tr0, pending = []\<rparr>" req] c
  obtain tr ps where "s = push tr ps \<lparr>trace = tr0, pending = []\<rparr>"
    and "dispatcher_events tr = []" and "set (invocations tr) \<subseteq> names_of h"
    by (auto simp: adds_def)
  then show ?thesis
    using invoke_handler_call[OF c, of srv] by (auto simp: trace_push)
qed

lemma invoke_handler_facts:
  "set (invocations (invoke_handler srv req tr0 h)) \<subseteq> set (invocations tr0) \<union> names_of h"
  "matcher_calls (invoke_handler srv req tr0 h) = matcher_calls tr0"
  "NotFoundInvoked \<in> set (invoke_handler srv req tr0 h) \<longleftrightarrow> NotFoundInvoked \<in> set tr0"
  using invoke_handler_adds[of srv req tr0 h]
  by (auto simp: invocations_run_pending matcher_calls_run_pending NotFoundInvoked_run_pending
        invocations_append matcher_calls_append dispatcher_events_free)

lemma invocations_invoke_notFoundHandler:
  "invocations (invoke_notFoundHandler srv req tr) = invocations tr"
  by (simp add: invoke_notFoundHandler_def invocations_invoke_errorHandler invocations_append
        invocations_Did split: prod.splits outcome.splits)

lemma matcher_calls_invoke_notFoundHandler:
  "matcher_calls (invoke_notFoundHandler srv req tr) = matcher_calls tr"
  by (simp add: invoke_notFoundHandler_def matcher_calls_invoke_errorHandler matcher_calls_append
        matcher_calls_Did split: prod.splits outcome.splits)

subsection \<open>A chain that stops at a middleware\<close>





section \<open>The claims\<close>

text \<open>
  C1. For every request and every route table, the dispatcher scans the compiled bucket
  of the request's method in registration order and invokes the handler of the first
  route whose matcher returns true, and no other; if no route of the bucket matches, or
  the method has no bucket, it invokes the current not-found handler. (The matchers in
  front of the first match return false; C10 is about one that throws.)

  With a first match, the matchers called are those up to it; then its handler is
  called, the failures that the call has queued go to the error handler, and so does a
  failure of the handler itself. Only functions inside that handler are invoked, and the
  not-found handler is not; when the handler is a plain function, the trace is its
  call and its effects. Without a match, every matcher of the bucket is called (none
  when the method has no bucket), then the not-found handler, whose effects follow in
  the trace, a failure of it going to the error handler; no function of a route is
  invoked.
\<close>

theorem dispatch_first_match:
  assumes "\<forall>c \<in> set (scanned req (bucket (compiledHandlers srv) (req_method req))).
             isPathValid c req = Inr False"
  shows "(List.find (matches req) (bucket (compiledHandlers srv) (req_method req)) = Some c \<longrightarrow>
            flitz srv req =
              (case call (handler c) req
                      \<lparr>trace = map MatcherEvaluated
                         [0..<Suc (length (scanned req (bucket (compiledHandlers srv) (req_method req))))],
                       pending = []\<rparr> of
                 (out, s) \<Rightarrow>
                   (case out of
                      Resolved \<Rightarrow> run_pending srv req (pending s) (trace s)
                    | Rejected e \<Rightarrow>
                        invoke_errorHandler srv req e (run_pending srv req (pending s) (trace s))
                    | Threw e \<Rightarrow>
                        invoke_errorHandler srv req e (run_pending srv req (pending s) (trace s))))
          \<and> matcher_calls (flitz srv req) =
                [0..<Suc (length (scanned req (bucket (compiledHandlers srv) (req_method req))))]
          \<and> set (invocations (flitz srv req)) \<subseteq> names_of (handler c)
          \<and> NotFoundInvoked \<notin> set (flitz srv req)
          \<and> (\<forall>name f. handler c = Fn name f \<longrightarrow>
                 flitz srv req =
                   (case f req of
                      (effs, out) \<Rightarrow>
                        (case out of
                           Resolved \<Rightarrow>
                             map MatcherEvaluated
                               [0..<Suc (length (scanned req
                                   (bucket (compiledHandlers srv) (req_method req))))]
                             @ Invoked name # map Did effs
                         | Rejected e \<Rightarrow>
                             invoke_errorHandler srv req e
                               (map MatcherEvaluated
                                  [0..<Suc (length (scanned req
                                      (bucket (compiledHandlers srv) (req_method req))))]
                                @ Invoked name # map Did effs)
                         | Threw e \<Rightarrow>
                             invoke_errorHandler srv req e
                               (map MatcherEvaluated
                                  [0..<Suc (length (scanned req
                                      (bucket (compiledHandlers srv) (req_method req))))]
                                @ Invoked name # map Did effs)))))
       \<and> (List.find (matches req) (bucket (compiledHandlers srv) (req_method req)) = None \<longrightarrow>
            flitz srv req =
              (case notFoundHandler srv req of
                 (effs, out) \<Rightarrow>
                   (case out of
                      Resolved \<Rightarrow>
                        map MatcherEvaluated
                          [0..<length (bucket (compiledHandlers srv) (req_method req))]
                        @ NotFoundInvoked # map Did effs
                    | Rejected e \<Rightarrow>
                        invoke_errorHandler srv req e
                          (map MatcherEvaluated
                             [0..<length (bucket (compiledHandlers srv) (req_method req))]
                           @ NotFoundInvoked # map Did effs)
                    | Threw e \<Rightarrow>
                        invoke_errorHandler srv req e
                          (map MatcherEvaluated
                             [0..<length (bucket (compiledHandlers srv) (req_method req))]
                           @ NotFoundInvoked # map Did effs)))
          \<and> matcher_calls (flitz srv req) =
                [0..<length (bucket (compiledHandlers srv) (req_method req))]
          \<and> invocations (flitz srv req) = []
          \<and> NotFoundInvoked \<in> set (flitz srv req))"
proof -
  let ?b = "bucket (compiledHandlers srv) (req_method req)"
  let ?n = "Suc (length (scanned req ?b))"
  have f: "flitz srv req =
     (case List.find (matches req) ?b of
        Some c \<Rightarrow> invoke_handler srv req (map MatcherEvaluated [0..<?n]) (handler c)
      | None \<Rightarrow> invoke_notFoundHandler srv req (map MatcherEvaluated [0..<length ?b]))"
    using find_ctx_find[OF assms]
    by (simp add: flitz_bucket split: option.splits)
  have found: ?thesis if c: "List.find (matches req) ?b = Some c"
  proof -
    have fc: "flitz srv req = invoke_handler srv req (map MatcherEvaluated [0..<?n]) (handler c)"
      using f c by simp
    have "NotFoundInvoked \<notin> set (map MatcherEvaluated [0..<?n])"
      by auto
    then have nf: "NotFoundInvoked \<notin> set (flitz srv req)"
      unfolding fc invoke_handler_facts(3) .
    have inv: "set (invocations (flitz srv req)) \<subseteq> names_of (handler c)"
      using invoke_handler_facts(1)[of srv req "map MatcherEvaluated [0..<?n]" "handler c"]
      by (simp add: fc invocations_MatcherEvaluated del: upt_Suc)
    have mc: "matcher_calls (flitz srv req) = [0..<?n]"
      by (simp add: fc invoke_handler_facts(2) matcher_calls_MatcherEvaluated del: upt_Suc)
    have fn: "flitz srv req =
        (case f' req of
           (effs, out) \<Rightarrow>
             (case out of
                Resolved \<Rightarrow> map MatcherEvaluated [0..<?n] @ Invoked name # map Did effs
              | Rejected e \<Rightarrow>
                  invoke_errorHandler srv req e
                    (map MatcherEvaluated [0..<?n] @ Invoked name # map Did effs)
              | Threw e \<Rightarrow>
                  invoke_errorHandler srv req e
                    (map MatcherEvaluated [0..<?n] @ Invoked name # map Did effs)))"
      if "handler c = Fn name f'" for name f'
      unfolding fc that by (rule invoke_handler_Fn)
    show ?thesis
      using c nf inv mc fn fc[unfolded invoke_handler_def] by simp
  qed
  have missing: ?thesis if c: "List.find (matches req) ?b = None"
  proof -
    have fc: "flitz srv req = invoke_notFoundHandler srv req (map MatcherEvaluated [0..<length ?b])"
      using f c by simp
    obtain effs out where n: "notFoundHandler srv req = (effs, out)"
      by (cases "notFoundHandler srv req") auto
    have nf: "NotFoundInvoked \<in> set (flitz srv req)"
      by (cases out)
         (simp_all add: fc invoke_notFoundHandler_def n NotFoundInvoked_invoke_errorHandler)
    have mc: "matcher_calls (flitz srv req) = [0..<length ?b]"
      by (simp add: fc matcher_calls_invoke_notFoundHandler matcher_calls_MatcherEvaluated)
    have inv: "invocations (flitz srv req) = []"
      by (simp add: fc invocations_invoke_notFoundHandler invocations_MatcherEvaluated)
    show ?thesis
      using c nf mc inv fc[unfolded invoke_notFoundHandler_def] by simp
  qed
  show ?thesis
  proof (cases "List.find (matches req) ?b = Some c")
    case True
    then show ?thesis by (rule found)
  next
    case False
    show ?thesis
    proof (cases "List.find (matches req) ?b = None")
      case True
      then show ?thesis by (rule missing)
    next
      case neither: False
      from False neither show ?thesis by blast
    qed
  qed
qed

theorem dispatch_first_match_witness:
  "scanned ex_request (bucket (compiledHandlers ex_server) (req_method ex_request)) = []
   \<and> List.find (matches ex_request) (bucket (compiledHandlers ex_server) (req_method ex_request))
       = Some \<lparr>handler = Merged (Merged ex_hello [ex_r1]) [ex_g1, ex_g2],
               isPathValid = isPathValidByString ''/a''\<rparr>
   \<and> flitz ex_server ex_request =
       [MatcherEvaluated 0, Invoked ''g1'', Did (Other ''g1 in''), Invoked ''g2'', Invoked ''r1'',
        Did (Other ''r1 in''), Invoked ''hello'', Did (Write [104, 105]), Did End,
        Did (Other ''g1 out'')]
   \<and> list_all (\<lambda>c. isPathValid c ex_request_zzz = Inr False)
        (scanned ex_request_zzz (bucket (compiledHandlers ex_server) (req_method ex_request_zzz)))
   \<and> length (scanned ex_request_zzz
                (bucket (compiledHandlers ex_server) (req_method ex_request_zzz))) = 1
   \<and> List.find (matches ex_request_zzz)
         (bucket (compiledHandlers ex_server) (req_method ex_request_zzz))
       = Some \<lparr>handler = Merged ex_other [ex_g1, ex_g2], isPathValid = (\<lambda>req. Inr True)\<rparr>
   \<and> flitz ex_server ex_request_zzz =
       [MatcherEvaluated 0, MatcherEvaluated 1, Invoked ''g1'', Did (Other ''g1 in''),
        Invoked ''g2'', Invoked ''other'', Did End, Did (Other ''g1 out'')]
   \<and> invocations (flitz ex_server ex_request_zzz) = [''g1'', ''g2'', ''other'']
   \<and> length (bucket (compiledHandlers ex_failing) (req_method ex_request_zzz)) = 1
   \<and> List.find (matches ex_request_zzz)
         (bucket (compiledHandlers ex_failing) (req_method ex_request_zzz)) = None
   \<and> flitz ex_failing ex_request_zzz =
       [MatcherEvaluated 0, NotFoundInvoked, Did (WriteHead 404), Did End]
   \<and> bucket (compiledHandlers ex_server) (req_method ex_request_post) = []
   \<and> flitz ex_server ex_request_post = [NotFoundInvoked, Did (WriteHead 404), Did End]"
proof -
  let ?c0 = "\<lparr>handler = Merged (Merged ex_hello [ex_r1]) [ex_g1, ex_g2],
              isPathValid = isPathValidByString ''/a''\<rparr>"
  let ?c1 = "\<lparr>handler = Merged ex_other [ex_g1, ex_g2], isPathValid = (\<lambda>req. Inr True)\<rparr>"
  note ev = ex_request_fields ex_request_zzz_fields ex_request_post_fields ex_server_GET
    ex_server_POST ex_failing_GET scanned_def matches_def isPathValidByString_def
  note rn = next_call.simps js_index_def emit_def catch_handleError_def run_pending_def
    invoke_errorHandler_def headersSent_def ex_mw_defs ex_hello_def ex_other_def
  have a1: "\<forall>c \<in> set (scanned ex_request (bucket (compiledHandlers ex_server) (req_method ex_request))).
      isPathValid c ex_request = Inr False"
    by (simp add: ev)
  have a2: "List.find (matches ex_request) (bucket (compiledHandlers ex_server) (req_method ex_request))
       = Some ?c0"
    by (simp add: ev)
  have t1: "flitz ex_server ex_request =
       [MatcherEvaluated 0, Invoked ''g1'', Did (Other ''g1 in''), Invoked ''g2'', Invoked ''r1'',
        Did (Other ''r1 in''), Invoked ''hello'', Did (Write [104, 105]), Did End,
        Did (Other ''g1 out'')]"
    using dispatch_first_match[OF a1, of ?c0] a2
    by (simp add: ev rn)
  have b1: "\<forall>c \<in> set (scanned ex_request_zzz
        (bucket (compiledHandlers ex_server) (req_method ex_request_zzz))).
      isPathValid c ex_request_zzz = Inr False"
    by (simp add: ev)
  have b2: "List.find (matches ex_request_zzz)
         (bucket (compiledHandlers ex_server) (req_method ex_request_zzz)) = Some ?c1"
    by (simp add: ev)
  have t2: "flitz ex_server ex_request_zzz =
       [MatcherEvaluated 0, MatcherEvaluated 1, Invoked ''g1'', Did (Other ''g1 in''),
        Invoked ''g2'', Invoked ''other'', Did End, Did (Other ''g1 out'')]"
    using dispatch_first_match[OF b1, of ?c1] b2
    by (simp add: ev rn)
  have c1: "\<forall>c \<in> set (scanned ex_request_zzz
        (bucket (compiledHandlers ex_failing) (req_method ex_request_zzz))).
      isPathValid c ex_request_zzz = Inr False"
    by (simp add: ev)
  have c2: "List.find (matches ex_request_zzz)
         (bucket (compiledHandlers ex_failing) (req_method ex_request_zzz)) = None"
    by (simp add: ev)
  have nf: "notFoundHandler ex_failing = defaultNotFoundHandler"
    "notFoundHandler ex_server = defaultNotFoundHandler"
    by (simp_all add: ex_failing_def ex_server_def ex_ops_def model_defs)
  have t3: "flitz ex_failing ex_request_zzz =
       [MatcherEvaluated 0, NotFoundInvoked, Did (WriteHead 404), Did End]"
    using dispatch_first_match[OF c1, of undefined] c2
    by (simp add: ev nf defaultNotFoundHandler_def)
  have d1: "\<forall>c \<in> set (scanned ex_request_post
        (bucket (compiledHandlers ex_server) (req_method ex_request_post))).
      isPathValid c ex_request_post = Inr False"
    by (simp add: ev)
  have t4: "flitz ex_server ex_request_post = [NotFoundInvoked, Did (WriteHead 404), Did End]"
    using dispatch_first_match[OF d1, of undefined]
    by (simp add: ev nf defaultNotFoundHandler_def)
  show ?thesis
    unfolding t1 t2 t3 t4
    using a2 b2 c2 by (simp add: ev)
qed




text \<open>
  C2. A handler H is registered with the route-scoped middlewares \<open>rs\<close> on a server,
  built by registration calls, whose global middlewares are \<open>gs\<close>; a request is
  dispatched to that route. If every middleware calls \<^verbatim>\<open>next()\<close>, once, and none fails,
  nor H, then the stages are invoked in the order \<open>gs\<close>, \<open>rs\<close>, H, each one at the
  call of \<^verbatim>\<open>next()\<close> of the one before it: the trace is what each stage does up to its
  call, in that order, then H, then what the stages do after their calls returned, last
  stage first. The error handler is not called.
\<close>

theorem middleware_order:
  assumes "srv = apply_ops ops createServer"
    and "\<forall>c \<in> set (scanned req (bucket (groupedHandlers srv) (req_method req))).
           isPathValid c req = Inr False"
    and "List.find (matches req) (bucket (groupedHandlers srv) (req_method req)) = Some c"
    and "handler c = wrap rs (Fn hn hf)"
    and "list_all (well_behaved req) (globalMiddleWares srv @ rs)"
    and "snd (hf req) = Resolved"
  shows "flitz srv req =
       map MatcherEvaluated
         [0..<Suc (length (scanned req (bucket (groupedHandlers srv) (req_method req))))]
       @ entering (globalMiddleWares srv @ rs) req
       @ Invoked hn # map Did (fst (hf req))
       @ leaving (globalMiddleWares srv @ rs) req
     \<and> invocations (flitz srv req) = map mw_name (globalMiddleWares srv @ rs) @ [hn]
     \<and> error_calls (flitz srv req) = []"
proof -
  let ?n = "Suc (length (scanned req (bucket (groupedHandlers srv) (req_method req))))"
  let ?gs = "globalMiddleWares srv"
  let ?s0 = "\<lparr>trace = map MatcherEvaluated [0..<?n], pending = []\<rparr>"
  let ?H = "Invoked hn # map Did (fst (hf req))"
  from assms(5) have gs: "list_all (well_behaved req) ?gs" and rs: "list_all (well_behaved req) rs"
    by simp_all
  have h: "\<And>s1. call (Fn hn hf) req s1 = (Resolved, push ?H [] s1)"
    unfolding call_Fn_push using assms(6) by simp
  have "\<And>s1. call (wrap rs (Fn hn hf)) req s1 =
      (Resolved, push (entering rs req @ ?H @ leaving rs req) [] s1)"
    using rs h by (rule call_wrap_well_behaved)
  with gs have "call (wrap ?gs (wrap rs (Fn hn hf))) req ?s0 =
      (Resolved, push (entering ?gs req @ (entering rs req @ ?H @ leaving rs req) @ leaving ?gs req)
         [] ?s0)"
    by (rule call_wrap_well_behaved)
  from invoke_handler_call[OF this, of srv]
  have "invoke_handler srv req (map MatcherEvaluated [0..<?n]) (wrap ?gs (wrap rs (Fn hn hf))) =
      map MatcherEvaluated [0..<?n] @ entering (?gs @ rs) req @ ?H @ leaving (?gs @ rs) req"
    by (simp add: trace_push run_pending_Nil entering_append leaving_append del: upt_Suc)
  then have f: "flitz srv req = map MatcherEvaluated [0..<?n] @ entering (?gs @ rs) req
       @ Invoked hn # map Did (fst (hf req)) @ leaving (?gs @ rs) req"
    using flitz_reachable[OF assms(1-3)] assms(4) by simp
  show ?thesis
    unfolding f
    by (simp add: invocations_append invocations_MatcherEvaluated invocations_entering
          invocations_leaving invocations_Did error_calls_append error_calls_MatcherEvaluated
          error_calls_entering error_calls_leaving error_calls_Did del: upt_Suc)
qed

theorem middleware_order_witness:
  "list_all (well_behaved ex_request) (globalMiddleWares ex_server @ [ex_r1])
   \<and> flitz ex_server ex_request =
       [MatcherEvaluated 0, Invoked ''g1'', Did (Other ''g1 in''), Invoked ''g2'', Invoked ''r1'',
        Did (Other ''r1 in''), Invoked ''hello'', Did (Write [104, 105]), Did End,
        Did (Other ''g1 out'')]
   \<and> invocations (flitz ex_server ex_request) = [''g1'', ''g2'', ''r1'', ''hello'']"
proof -
  let ?c = "\<lparr>handler = Merged ex_hello [ex_r1], isPathValid = isPathValidByString ''/a''\<rparr>"
  let ?f = "\<lambda>req :: request. ([Write [104, 105], End], Resolved)"
  have h1: "ex_server = apply_ops ex_ops createServer"
    by (simp add: ex_server_def)
  have h2: "\<forall>c \<in> set (scanned ex_request (bucket (groupedHandlers ex_server) (req_method ex_request))).
      isPathValid c ex_request = Inr False"
    by (simp add: ex_request_fields ex_server_raw scanned_def matches_def isPathValidByString_def)
  have h3: "List.find (matches ex_request) (bucket (groupedHandlers ex_server) (req_method ex_request))
      = Some ?c"
    by (simp add: ex_request_fields ex_server_raw matches_def isPathValidByString_def)
  have h4: "handler ?c = wrap [ex_r1] (Fn ''hello'' ?f)"
    by (simp add: wrap_def mergeHandler_def ex_hello_def)
  have h5: "list_all (well_behaved ex_request) (globalMiddleWares ex_server @ [ex_r1])"
    by (simp add: ex_server_raw well_behaved_def ex_mw_defs)
  have h6: "snd (?f ex_request) = Resolved"
    by simp
  from middleware_order[OF h1 h2 h3 h4 h5 h6] h5 show ?thesis
    by (simp add: ex_request_fields ex_server_raw scanned_def matches_def isPathValidByString_def
          entering_def leaving_def ex_mw_defs)
qed






text \<open>
  C3. After any sequence of \<^verbatim>\<open>use()\<close> calls and route registrations on a new server, the
  global middlewares are those of the accepted \<^verbatim>\<open>use()\<close> calls in the order they were
  given, the raw table holds the routes of the accepted registrations in their order,
  each with its handler inside its own middlewares only, and the compiled table holds
  the same routes, each handler wrapped once more with the whole list of global
  middlewares (not wrapped at all when there is none).
\<close>

theorem compiled_table_after_calls:
  "globalMiddleWares (apply_ops ops createServer) = accumulated ops
   \<and> groupedHandlers (apply_ops ops createServer) m =
       (if registered ops m = [] then None else Some (registered ops m))
   \<and> compiledHandlers (apply_ops ops createServer) m =
       (if registered ops m = [] then None
        else Some (map (compile_ctx (accumulated ops)) (registered ops m)))"
proof -
  let ?s = "apply_ops ops createServer"
  have "no_empty_bucket (compiledHandlers ?s)"
    using reachable_state(1,2)[of ops]
    by (simp add: compiled_from_raw_def no_empty_bucket_compile)
  from table_of_bucket[OF this, of m] table_of_bucket[OF reachable_state(2), of ops m]
  show ?thesis
    by (simp add: reachable_state reachable_compiled_bucket)
qed

theorem compiled_table_after_calls_witness:
  "globalMiddleWares (apply_ops ex_ops createServer) = [ex_g1, ex_g2]
   \<and> compiledHandlers (apply_ops ex_ops createServer) ''GET'' =
       Some [\<lparr>handler = Merged (Merged ex_hello [ex_r1]) [ex_g1, ex_g2],
               isPathValid = isPathValidByString ''/a''\<rparr>,
             \<lparr>handler = Merged ex_other [ex_g1, ex_g2], isPathValid = (\<lambda>req. Inr True)\<rparr>]
   \<and> compiledHandlers (apply_ops ex_ops createServer) ''POST'' = None"
  using compiled_table_after_calls[of ex_ops "''GET''"] compiled_table_after_calls[of ex_ops "''POST''"]
  by (simp add: ex_ops_def registered_def accumulated_def route_of_def normalize_options_def
        compile_ctx_def wrap_def mergeHandler_def)

text \<open>
  C9. Compiling with an empty list of global middlewares returns the raw table itself. On
  a server built by registration calls without global middlewares the compiled table is
  the raw table, and a request is dispatched to the very handler that registration
  stored for the first matching route, with no wrapping added: after the calls of the
  matchers up to that route, the stored handler is called, the failures that the call
  has queued go to the error handler, and so does a failure of the handler itself; only
  functions inside the stored handler are invoked, and when it is a plain function, the
  trace is its call and its effects.
\<close>

theorem compile_without_middlewares:
  "compileAllWithMiddlewares g [] = g
   \<and> (globalMiddleWares (apply_ops ops createServer) = [] \<longrightarrow>
        compiledHandlers (apply_ops ops createServer) = groupedHandlers (apply_ops ops createServer)
      \<and> ((\<forall>c \<in> set (scanned req (bucket (groupedHandlers (apply_ops ops createServer))
                                   (req_method req))). isPathValid c req = Inr False)
           \<and> List.find (matches req)
                (bucket (groupedHandlers (apply_ops ops createServer)) (req_method req)) = Some c
         \<longrightarrow> flitz (apply_ops ops createServer) req =
               invoke_handler (apply_ops ops createServer) req
                 (map MatcherEvaluated
                    [0..<Suc (length (scanned req
                       (bucket (groupedHandlers (apply_ops ops createServer)) (req_method req))))])
                 (handler c)
           \<and> flitz (apply_ops ops createServer) req =
               (case call (handler c) req
                       \<lparr>trace = map MatcherEvaluated
                          [0..<Suc (length (scanned req
                             (bucket (groupedHandlers (apply_ops ops createServer)) (req_method req))))],
                        pending = []\<rparr> of
                  (out, s) \<Rightarrow>
                    (case out of
                       Resolved \<Rightarrow>
                         run_pending (apply_ops ops createServer) req (pending s) (trace s)
                     | Rejected e \<Rightarrow>
                         invoke_errorHandler (apply_ops ops createServer) req e
                           (run_pending (apply_ops ops createServer) req (pending s) (trace s))
                     | Threw e \<Rightarrow>
                         invoke_errorHandler (apply_ops ops createServer) req e
                           (run_pending (apply_ops ops createServer) req (pending s) (trace s))))
           \<and> set (invocations (flitz (apply_ops ops createServer) req)) \<subseteq> names_of (handler c)
           \<and> (\<forall>name f. handler c = Fn name f \<longrightarrow>
                  flitz (apply_ops ops createServer) req =
                    (case f req of
                       (effs, out) \<Rightarrow>
                         (case out of
                            Resolved \<Rightarrow>
                              map MatcherEvaluated
                                [0..<Suc (length (scanned req
                                   (bucket (groupedHandlers (apply_ops ops createServer))
                                      (req_method req))))]
                              @ Invoked name # map Did effs
                          | Rejected e \<Rightarrow>
                              invoke_errorHandler (apply_ops ops createServer) req e
                                (map MatcherEvaluated
                                   [0..<Suc (length (scanned req
                                      (bucket (groupedHandlers (apply_ops ops createServer))
                                         (req_method req))))]
                                 @ Invoked name # map Did effs)
                          | Threw e \<Rightarrow>
                              invoke_errorHandler (apply_ops ops createServer) req e
                                (map MatcherEvaluated
                                   [0..<Suc (length (scanned req
                                      (bucket (groupedHandlers (apply_ops ops createServer))
                                         (req_method req))))]
                                 @ Invoked name # map Did effs))))))"
proof -
  let ?s = "apply_ops ops createServer"
  let ?n = "Suc (length (scanned req (bucket (groupedHandlers ?s) (req_method req))))"
  have c: "compileAllWithMiddlewares g [] = g" for g
    by (simp add: compileAllWithMiddlewares_def)
  have t: "compiledHandlers ?s = groupedHandlers ?s" if "globalMiddleWares ?s = []"
    using reachable_state(1)[of ops] that by (simp add: compiled_from_raw_def c)
  have f: "flitz ?s req = invoke_handler ?s req (map MatcherEvaluated [0..<?n]) (handler c)"
    if "globalMiddleWares ?s = []"
      and "\<forall>c \<in> set (scanned req (bucket (groupedHandlers ?s) (req_method req))).
             isPathValid c req = Inr False"
      and "List.find (matches req) (bucket (groupedHandlers ?s) (req_method req)) = Some c"
    using flitz_reachable[OF refl that(2,3)] that(1) by (simp add: wrap_def)
  have i: "set (invocations (invoke_handler ?s req (map MatcherEvaluated [0..<?n]) (handler c)))
             \<subseteq> names_of (handler c)"
    using invoke_handler_facts(1)[of ?s req "map MatcherEvaluated [0..<?n]" "handler c"]
    by (simp add: invocations_MatcherEvaluated del: upt_Suc)
  have fn: "invoke_handler ?s req (map MatcherEvaluated [0..<?n]) (handler c) =
        (case f' req of
           (effs, out) \<Rightarrow>
             (case out of
                Resolved \<Rightarrow> map MatcherEvaluated [0..<?n] @ Invoked name # map Did effs
              | Rejected e \<Rightarrow>
                  invoke_errorHandler ?s req e
                    (map MatcherEvaluated [0..<?n] @ Invoked name # map Did effs)
              | Threw e \<Rightarrow>
                  invoke_errorHandler ?s req e
                    (map MatcherEvaluated [0..<?n] @ Invoked name # map Did effs)))"
      if "handler c = Fn name f'" for name f'
    unfolding that by (rule invoke_handler_Fn)
  show ?thesis
    using c t f i fn f[unfolded invoke_handler_def] by simp
qed

theorem compile_without_middlewares_witness:
  "globalMiddleWares ex_plain = []
   \<and> compiledHandlers ex_plain = groupedHandlers ex_plain
   \<and> bucket (compiledHandlers ex_plain) ''GET'' =
       [\<lparr>handler = Merged ex_hello [ex_r1], isPathValid = isPathValidByString ''/a''\<rparr>,
        \<lparr>handler = ex_other, isPathValid = (\<lambda>req. Inr True)\<rparr>]
   \<and> List.find (matches ex_request) (bucket (groupedHandlers ex_plain) (req_method ex_request))
       = Some \<lparr>handler = Merged ex_hello [ex_r1], isPathValid = isPathValidByString ''/a''\<rparr>
   \<and> flitz ex_plain ex_request =
       [MatcherEvaluated 0, Invoked ''r1'', Did (Other ''r1 in''), Invoked ''hello'',
        Did (Write [104, 105]), Did End]
   \<and> list_all (\<lambda>c. isPathValid c ex_request_zzz = Inr False)
        (scanned ex_request_zzz (bucket (groupedHandlers ex_plain) (req_method ex_request_zzz)))
   \<and> List.find (matches ex_request_zzz)
         (bucket (groupedHandlers ex_plain) (req_method ex_request_zzz))
       = Some \<lparr>handler = Fn ''other'' (\<lambda>req. ([End], Resolved)), isPathValid = (\<lambda>req. Inr True)\<rparr>
   \<and> flitz ex_plain ex_request_zzz =
       [MatcherEvaluated 0, MatcherEvaluated 1, Invoked ''other'', Did End]"
proof -
  let ?ops = "[Route ''GET'' (Args3 (JString ''/a'') (JArray [JFunction ex_r1]) (JFunction ex_hello)),
        Route ''GET'' (Args2 (JFunction (\<lambda>req. Inr True)) (JFunction ex_other))]"
  let ?c0 = "\<lparr>handler = Merged ex_hello [ex_r1], isPathValid = isPathValidByString ''/a''\<rparr>"
  let ?c1 = "\<lparr>handler = Fn ''other'' (\<lambda>req :: request. ([End], Resolved)),
              isPathValid = (\<lambda>req :: request. Inr True)\<rparr>"
  note ev = ex_request_fields ex_request_zzz_fields ex_plain_raw scanned_def matches_def
    isPathValidByString_def
  note rn = invoke_handler_def next_call.simps js_index_def emit_def catch_handleError_def
    run_pending_def invoke_errorHandler_def headersSent_def ex_mw_defs ex_hello_def ex_other_def
  have p: "ex_plain = apply_ops ?ops createServer"
    by (simp add: ex_plain_def)
  have a2: "List.find (matches ex_request) (bucket (groupedHandlers ex_plain) (req_method ex_request))
       = Some ?c0"
    by (simp add: ev)
  have b2: "List.find (matches ex_request_zzz)
         (bucket (groupedHandlers ex_plain) (req_method ex_request_zzz)) = Some ?c1"
    by (simp add: ev ex_other_def)
  note w0 = compile_without_middlewares[of "groupedHandlers ex_plain" ?ops ex_request ?c0,
      unfolded p[symmetric]]
  note w1 = compile_without_middlewares[of "groupedHandlers ex_plain" ?ops ex_request_zzz ?c1,
      unfolded p[symmetric]]
  have t0: "compiledHandlers ex_plain = groupedHandlers ex_plain"
    using w0 by (simp add: ex_plain_raw)
  have t1: "flitz ex_plain ex_request =
       [MatcherEvaluated 0, Invoked ''r1'', Did (Other ''r1 in''), Invoked ''hello'',
        Did (Write [104, 105]), Did End]"
    using w0 a2
    by (simp add: ev rn)
  have t2: "flitz ex_plain ex_request_zzz =
       [MatcherEvaluated 0, MatcherEvaluated 1, Invoked ''other'', Did End]"
    using w1 b2
    by (simp add: ev rn)
  show ?thesis
    unfolding t1 t2 t0
    using a2 b2 by (simp add: ev)
qed


text \<open>
  C7. A registration call whose path is neither a string, a pattern object nor a function,
  or whose handler is not callable, throws a \<^verbatim>\<open>TypeError\<close> and leaves the server as it
  was: the raw table, every bucket of it, and the compiled table.
\<close>

theorem invalid_registration_rejected:
  assumes "\<not> path_accepted (args_path args) \<or> \<not> is_function (args_handler args)"
  shows "\<exists>msg. withMethod m args s = (Thrown (TypeError msg), s)"
proof (cases "path_accepted (args_path args)")
  case False
  then show ?thesis by (simp add: withMethod_def)
next
  case True
  with assms have "\<not> is_function (args_handler args)" by simp
  with True show ?thesis
    by (cases "args_handler args") (simp_all add: withMethod_def)
qed

theorem invalid_registration_rejected_witness:
  "\<not> path_accepted (args_path (Args2 (JNumber 5) (JFunction ex_hello)))
   \<and> withMethod ''GET'' (Args2 (JNumber 5) (JFunction ex_hello)) ex_server =
       (Thrown (TypeError ''path must be of type string, function or RegEx''), ex_server)
   \<and> \<not> is_function (args_handler (Args3 (JString ''/x'') (JArray []) (JString ''nope'')))
   \<and> withMethod ''POST'' (Args3 (JString ''/x'') (JArray []) (JString ''nope'')) ex_server =
       (Thrown (TypeError ''handler must be a function''), ex_server)"
proof -
  have h1: "\<not> path_accepted (args_path (Args2 (JNumber 5) (JFunction ex_hello)))
      \<or> \<not> is_function (args_handler (Args2 (JNumber 5) (JFunction ex_hello)))"
    by simp
  have h2: "\<not> path_accepted (args_path (Args3 (JString ''/x'') (JArray []) (JString ''nope'')))
      \<or> \<not> is_function (args_handler (Args3 (JString ''/x'') (JArray []) (JString ''nope'')))"
    by simp
  from invalid_registration_rejected[OF h1, of "''GET''" ex_server]
       invalid_registration_rejected[OF h2, of "''POST''" ex_server]
  show ?thesis
    by (simp add: withMethod_def)
qed


text \<open>
  C5, as stated, does not hold: a registration call whose path is the empty string is
  accepted, and registers a route.
\<close>

theorem empty_path_accepted_counterexample:
  "fst (withMethod ''GET'' (Args2 (JString '''') (JFunction ex_hello)) createServer) = Returned
   \<and> bucket (groupedHandlers (snd (withMethod ''GET'' (Args2 (JString '''') (JFunction ex_hello))
               createServer))) ''GET''
       = [\<lparr>handler = ex_hello, isPathValid = isPathValidByString ''''\<rparr>]"
  by (simp add: model_defs bucket_def)


text \<open>
  C5, amended. A registration call whose path is neither a string, a pattern object nor a
  function throws before any state is changed; the check is by type only, so that every
  string, the empty one included, is accepted as a path: with a callable handler the call
  returns and has pushed a route whose matcher compares the request url with that
  string.
\<close>

theorem path_check_by_type:
  "(\<not> path_accepted (args_path args) \<longrightarrow>
      withMethod m args s =
        (Thrown (TypeError ''path must be of type string, function or RegEx''), s))
   \<and> (path_accepted p \<longleftrightarrow> (\<exists>x. p = JString x) \<or> (\<exists>r. p = JRegExp r) \<or> (\<exists>f. p = JFunction f))
   \<and> withMethod m (Args2 (JString x) (JFunction h)) s =
        (Returned,
         recompileHandlers
           (s\<lparr>groupedHandlers :=
                 push_ctx m \<lparr>handler = h, isPathValid = isPathValidByString x\<rparr>
                   (groupedHandlers s)\<rparr>))"
proof -
  have "route_of (Args2 (JString x) (JFunction h))
      = Some \<lparr>handler = h, isPathValid = isPathValidByString x\<rparr>"
    by (simp add: route_of_def normalize_options_def wrap_def)
  from withMethod_accepted[OF this, of m s] show ?thesis
    by (cases p) (simp_all add: withMethod_def)
qed

theorem path_check_by_type_witness:
  "\<not> path_accepted (args_path (Args2 JNull (JFunction ex_hello)))
   \<and> withMethod ''GET'' (Args2 JNull (JFunction ex_hello)) createServer =
        (Thrown (TypeError ''path must be of type string, function or RegEx''), createServer)
   \<and> path_accepted (JString '''' :: RequestPathValidator jsval)
   \<and> fst (withMethod ''GET'' (Args2 (JString '''') (JFunction ex_hello)) createServer) = Returned"
  using path_check_by_type[of "Args2 JNull (JFunction ex_hello)" "''GET''" createServer
          "JString ''''" "''''" ex_hello]
  by simp


text \<open>
  C6, as stated, does not hold: the request \<^verbatim>\<open>GET /foo?x=1\<close> has the path \<^verbatim>\<open>/foo\<close>, and
  the matcher of the route registered for the string \<^verbatim>\<open>/foo\<close> does not match it.
\<close>

theorem string_matcher_query_counterexample:
  "request_path \<lparr>req_method = ''GET'', url = ''/foo?x=1'', headers = []\<rparr> = ''/foo''
   \<and> route_of (Args2 (JString ''/foo'') (JFunction ex_hello))
       = Some \<lparr>handler = ex_hello, isPathValid = isPathValidByString ''/foo''\<rparr>
   \<and> isPathValidByString ''/foo'' \<lparr>req_method = ''GET'', url = ''/foo?x=1'', headers = []\<rparr>
       = Inr False"
  by (simp add: request_path_def route_of_def normalize_options_def wrap_def isPathValidByString_def)


text \<open>
  C6, amended. The matcher of a route registered with a string path \<open>p\<close> returns true
  for a request exactly when \<^verbatim>\<open>req.url\<close>, the request-target with its query string,
  equals \<open>p\<close>; it does not depend on the method or on the headers of the request.
\<close>

theorem string_matcher_compares_url:
  "route_of (Args2 (JString p) (JFunction h))
     = Some \<lparr>handler = h, isPathValid = isPathValidByString p\<rparr>
   \<and> isPathValidByString p req = Inr (url req = p)
   \<and> isPathValidByString p (req\<lparr>req_method := m, headers := hs\<rparr>) = isPathValidByString p req"
  by (simp add: route_of_def normalize_options_def wrap_def isPathValidByString_def)

theorem string_matcher_compares_url_witness:
  "isPathValidByString ''/a'' ex_request = Inr True
   \<and> isPathValidByString ''/a'' (ex_request\<lparr>req_method := ''POST'', headers := [(''accept'', ''*'')]\<rparr>)
       = Inr True
   \<and> isPathValidByString ''/a'' (ex_request\<lparr>url := ''/a?x=1''\<rparr>) = Inr False"
  using string_matcher_compares_url[where p = "''/a''" and h = ex_hello and req = ex_request
          and m = "''POST''" and hs = "[(''accept'', ''*'')]"]
        string_matcher_compares_url[where p = "''/a''" and h = ex_hello
          and req = "ex_request\<lparr>url := ''/a?x=1''\<rparr>"]
  by (simp add: ex_request_def)

text \<open>
  C8. Static files in cache mode, for a directory tree whose entries have distinct names
  without a slash. The map that \<^verbatim>\<open>loadAllFiles\<close> builds holds a key exactly for every
  regular file under \<^verbatim>\<open>rootDir\<close>, different files have different keys, the key is
  \<^verbatim>\<open>basePath\<close>, a slash unless \<^verbatim>\<open>basePath\<close> ends in one, and the relative path of the file
  with slashes, and its value is the bytes of the file. On a server without global
  middlewares and without an earlier route that matches, a GET request whose url is such
  a key is answered by the handler with 200 and those bytes, and one whose url starts
  with \<^verbatim>\<open>basePath\<close> and is no key with 404, written by the handler itself: the not-found
  handler is not invoked.
\<close>

theorem static_cache:
  assumes "wf_entries rootDir"
    and "srv = apply_ops (ops @ [Static basePath rootDir]) createServer"
    and "accumulated ops = []"
    and "req_method req = ''GET''"
    and "\<forall>c \<in> set (registered ops ''GET''). isPathValid c req = Inr False"
  shows "(loadAllFiles rootDir [] basePath Map.empty k = Some d \<longleftrightarrow>
            (\<exists>p. (p, d) \<in> set (files_under rootDir []) \<and> k = file_key basePath p))
       \<and> inj_on (file_key basePath) (fst ` set (files_under rootDir []))
       \<and> file_key basePath p =
            basePath @ (if basePath \<noteq> [] \<and> last basePath = CHR ''/'' then [] else ''/'')
              @ relativePath p
       \<and> ((p, d) \<in> set (files_under rootDir []) \<and> url req = file_key basePath p \<longrightarrow>
            flitz srv req =
              map MatcherEvaluated [0..<Suc (length (registered ops ''GET''))]
              @ [Invoked ''static'', Did (WriteHead 200), Did (Write d), Did End])
       \<and> (prefix basePath (url req)
            \<and> url req \<notin> (\<lambda>(p, d). file_key basePath p) ` set (files_under rootDir []) \<longrightarrow>
            flitz srv req =
              map MatcherEvaluated [0..<Suc (length (registered ops ''GET''))]
              @ [Invoked ''static'', Did (WriteHead 404), Did End]
            \<and> NotFoundInvoked \<notin> set (flitz srv req))"
proof -
  let ?files = "loadAllFiles rootDir [] basePath Map.empty"
  note lookup = cache_lookup[OF assms(1), of basePath]
  have hit: "flitz srv req =
       map MatcherEvaluated [0..<Suc (length (registered ops ''GET''))]
       @ [Invoked ''static'', Did (WriteHead 200), Did (Write d), Did End]"
    if "(p, d) \<in> set (files_under rootDir [])" "url req = file_key basePath p"
  proof -
    have "?files (url req) = Some d"
      using that lookup[of "url req" d] by auto
    moreover have "prefix basePath (url req)"
      using that(2) by (simp add: file_key_def)
    ultimately show ?thesis
      using flitz_static[OF assms(2-5)] by (simp add: static_response_def del: upt_Suc)
  qed
  have miss: "flitz srv req =
       map MatcherEvaluated [0..<Suc (length (registered ops ''GET''))]
       @ [Invoked ''static'', Did (WriteHead 404), Did End]"
    if "prefix basePath (url req)"
      "url req \<notin> (\<lambda>(p, d). file_key basePath p) ` set (files_under rootDir [])"
  proof -
    have "?files (url req) = None"
    proof (cases "?files (url req)")
      case None
      then show ?thesis .
    next
      case (Some d')
      with lookup[of "url req" d'] that(2) show ?thesis by force
    qed
    then show ?thesis
      using flitz_static[OF assms(2-5) that(1)] by (simp add: static_response_def del: upt_Suc)
  qed
  have "NotFoundInvoked \<notin> set (map MatcherEvaluated [0..<Suc (length (registered ops ''GET''))]
       @ [Invoked ''static'', Did (WriteHead 404), Did End])"
    by auto
  with hit miss lookup[of k d] file_key_inj_on[OF assms(1), of basePath] show ?thesis
    by (simp add: file_key_def endsWith_slash_def del: upt_Suc)
qed

theorem static_cache_witness:
  "wf_entries ex_root
   \<and> files_under ex_root [] = [([''a.txt''], [1, 2, 3]), ([''sub'', ''b.txt''], [4, 5])]
   \<and> file_key ''/static'' [''sub'', ''b.txt''] = ''/static/sub/b.txt''
   \<and> flitz ex_static \<lparr>req_method = ''GET'', url = ''/static/a.txt'', headers = []\<rparr> =
       [MatcherEvaluated 0, Invoked ''static'', Did (WriteHead 200), Did (Write [1, 2, 3]), Did End]
   \<and> flitz ex_static \<lparr>req_method = ''GET'', url = ''/static/sub/b.txt'', headers = []\<rparr> =
       [MatcherEvaluated 0, Invoked ''static'', Did (WriteHead 200), Did (Write [4, 5]), Did End]
   \<and> flitz ex_static \<lparr>req_method = ''GET'', url = ''/static/missing.txt'', headers = []\<rparr> =
       [MatcherEvaluated 0, Invoked ''static'', Did (WriteHead 404), Did End]"
proof -
  have w: "wf_entries ex_root"
    by (simp add: ex_root_def valid_name_def)
  have s: "ex_static = apply_ops ([] @ [Static ''/static'' ex_root]) createServer"
    by (simp add: ex_static_def)
  have a: "accumulated [] = []"
    by (simp add: accumulated_def)
  have f: "files_under ex_root [] = [([''a.txt''], [1, 2, 3]), ([''sub'', ''b.txt''], [4, 5])]"
    by (simp add: ex_root_def)
  have k: "file_key ''/static'' [''a.txt''] = ''/static/a.txt''"
    "file_key ''/static'' [''sub'', ''b.txt''] = ''/static/sub/b.txt''"
    by (simp_all add: file_key_def endsWith_slash_def)
  let ?r1 = "\<lparr>req_method = ''GET'', url = ''/static/a.txt'', headers = []\<rparr>"
  let ?r2 = "\<lparr>req_method = ''GET'', url = ''/static/sub/b.txt'', headers = []\<rparr>"
  let ?r3 = "\<lparr>req_method = ''GET'', url = ''/static/missing.txt'', headers = []\<rparr>"
  have g: "req_method ?r1 = ''GET''" "req_method ?r2 = ''GET''" "req_method ?r3 = ''GET''"
    by simp_all
  have n: "\<forall>c \<in> set (registered [] ''GET''). isPathValid c r = Inr False" for r
    by (simp add: registered_def)
  from static_cache[OF w s a g(1) n, where p = "[''a.txt'']" and d = "[1, 2, 3]"]
       static_cache[OF w s a g(2) n, where p = "[''sub'', ''b.txt'']" and d = "[4, 5]"]
       static_cache[OF w s a g(3) n]
  show ?thesis
    using w by (simp add: f k registered_def)
qed

end
